theory Spec2Isabelle
  imports Main "HOL-Library.AList"
begin

section \<open>Data model (app/models/slack.py)\<close>

text \<open>
  Python strings are modelled as \<open>string\<close>, one \<open>char\<close> per code point (code points
  below 256). A \<open>datetime\<close> is a naive timestamp, as \<open>datetime.fromtimestamp\<close> and
  \<open>datetime.now()\<close> produce it: the number of microseconds since \<open>datetime.min\<close>
  (0001-01-01 00:00:00).
\<close>

type_synonym datetime = int

abbreviation NL :: char where
  "NL \<equiv> CHR 0x0A"

text \<open>Values of type \<open>Any\<close> (canvas blocks, reactions, attachments, decoded JSON).\<close>

datatype pyval =
    PNone
  | PBool bool
  | PNum string
  | PStr string
  | PList "pyval list"
  | PDict "(string \<times> pyval) list"

text \<open>
  Exceptions. \<open>ProcessingError\<close> is raised by this service with the message given in the
  source; \<open>ExternalError\<close> is any exception raised by a collaborator (Slack client, LLM
  chain, vector store, splitter, JSON decoder, schema validation), carrying its \<open>str\<close>; the
  others are raised by the interpreter.
\<close>

datatype exn =
    ProcessingError string
  | ExternalError string
  | KeyError string
  | TypeError
  | IndexError
  | OverflowError

record slack_user =
  u_id :: string
  u_name :: string
  u_real_name :: "string option"
  u_email :: "string option"
  u_title :: "string option"
  u_is_admin :: bool

datatype message = Message
  (m_id: string)
  (m_text: string)
  (m_user: string)
  (m_timestamp: datetime)
  (m_reactions: "pyval list")
  (m_replies: "message list")
  (m_thread_ts: "string option")
  (m_attachments: "pyval list")

record channel =
  c_id :: string
  c_name :: string
  c_is_private :: bool
  c_created :: datetime
  c_creator :: "string option"
  c_messages :: "message list"

record canvas =
  cv_id :: string
  cv_title :: string
  cv_created :: datetime
  cv_creator :: string
  cv_content :: "(string \<times> pyval) list list"
  cv_channel_id :: "string option"

record workspace =
  w_id :: string
  w_name :: string
  w_domain :: string
  w_users :: "slack_user list"
  w_channels :: "channel list"
  w_canvases :: "canvas list"
  w_extraction_time :: datetime

text \<open>\<open>langchain.schema.Document\<close>: the text and the metadata dict, in insertion order.\<close>

record document =
  page_content :: string
  metadata :: "(string \<times> pyval) list"

text \<open>
  \<open>SlackAIProcessingResultSchema\<close>. The insight and topic lists hold what the parsers
  return (any decoded JSON value).
\<close>

record result =
  r_workspace_id :: string
  r_summary :: string
  r_channel_summaries :: "(string \<times> string) list"
  r_canvas_summaries :: "(string \<times> string) list"
  r_key_insights :: "pyval list"
  r_topics :: "pyval list"
  r_processing_time :: datetime

section \<open>Collaborators\<close>

datatype prompt =
    ChannelSummaryPrompt
  | CanvasSummaryPrompt
  | WorkspaceSummaryPrompt
  | KeyInsightsPrompt
  | KeyTopicsPrompt

text \<open>
  Everything the service calls but does not own: the Slack integration service, the
  clock (one field per \<open>datetime.now()\<close> of a worker run), the text splitter, the
  vector store, \<open>LLMChain.run\<close> for each of the five prompt templates, \<open>json.loads\<close>,
  the two datetime formatters, the schema validation run by the result constructor and
  the interpreter's \<open>str\<close> of its own exceptions.
\<close>

record env =
  fetch_all_workspace_data :: "string \<Rightarrow> exn + workspace"
  now_cutoff :: datetime
  now_processing_time :: datetime
  now_completed_at :: datetime
  split_documents :: "document list \<Rightarrow> exn + document list"
  from_documents :: "document list \<Rightarrow> exn + nat"
  chain_run :: "prompt \<Rightarrow> (string \<times> string) list \<Rightarrow> exn + string"
  json_loads :: "string \<Rightarrow> exn + pyval"
  isoformat :: "datetime \<Rightarrow> string"
  strftime :: "datetime \<Rightarrow> string"
  validate_result :: "result \<Rightarrow> exn + result"
  describe :: "exn \<Rightarrow> string"

text \<open>
  Modelled from the spec: class \<open>ProcessingError\<close> of app/core/errors.py, which is not
  among the sources. The spec has the error's human-readable description stored verbatim,
  so \<open>str(e)\<close> of a \<open>ProcessingError\<close> is the message it was raised with.
\<close>

fun exn_str :: "env \<Rightarrow> exn \<Rightarrow> string" where
  "exn_str E (ProcessingError msg) = msg"
| "exn_str E (ExternalError msg) = msg"
| "exn_str E e = describe E e"

section \<open>String helpers\<close>

text \<open>\<open>str.isspace\<close> on one character (code points below 256).\<close>

definition isspace :: "char \<Rightarrow> bool" where
  "isspace c = (c \<in> set [CHR 0x09, CHR 0x0A, CHR 0x0B, CHR 0x0C, CHR 0x0D,
     CHR 0x1C, CHR 0x1D, CHR 0x1E, CHR 0x1F, CHR 0x20, CHR 0x85, CHR 0xA0])"

definition strip :: "string \<Rightarrow> string" where
  "strip s = rev (dropWhile isspace (rev (dropWhile isspace s)))"

text \<open>\<open>s.split(sep)\<close> for a one-character separator: empty pieces are kept.\<close>

fun split_on :: "char \<Rightarrow> string \<Rightarrow> string list" where
  "split_on sep [] = [[]]"
| "split_on sep (x # xs) =
     (if x = sep then [] # split_on sep xs
      else (case split_on sep xs of
              [] \<Rightarrow> [[x]]
            | w # ws \<Rightarrow> (x # w) # ws))"

text \<open>\<open>sep.join(parts)\<close>.\<close>

fun join :: "string \<Rightarrow> string list \<Rightarrow> string" where
  "join sep [] = []"
| "join sep [p] = p"
| "join sep (p # q # ps) = p @ sep @ join sep (q # ps)"

fun is_prefix :: "string \<Rightarrow> string \<Rightarrow> bool" where
  "is_prefix [] ys = True"
| "is_prefix (x # xs) [] = False"
| "is_prefix (x # xs) (y # ys) = (x = y \<and> is_prefix xs ys)"

text \<open>\<open>sub in s\<close> for two strings.\<close>

fun is_substring :: "string \<Rightarrow> string \<Rightarrow> bool" where
  "is_substring sub [] = (sub = [])"
| "is_substring sub (y # ys) = (is_prefix sub (y # ys) \<or> is_substring sub ys)"

section \<open>Dynamic operations on canvas blocks\<close>

text \<open>\<open>v + "\n"\<close>: only a string can be concatenated with a string.\<close>

fun add_newline :: "pyval \<Rightarrow> exn + string" where
  "add_newline (PStr s) = Inr (s @ [NL])"
| "add_newline v = Inl TypeError"

text \<open>\<open>for element in v\<close>: the elements of a list, the keys of a dict, the characters of
  a string.\<close>

fun py_iter :: "pyval \<Rightarrow> exn + pyval list" where
  "py_iter (PList xs) = Inr xs"
| "py_iter (PDict kvs) = Inr (map (\<lambda>kv. PStr (fst kv)) kvs)"
| "py_iter (PStr s) = Inr (map (\<lambda>c. PStr [c]) s)"
| "py_iter v = Inl TypeError"

text \<open>\<open>"text" in v\<close>: a key of a dict, an element of a list, a substring of a string.\<close>

fun contains_text :: "pyval \<Rightarrow> exn + bool" where
  "contains_text (PDict kvs) = Inr (''text'' \<in> set (map fst kvs))"
| "contains_text (PList xs) = Inr (PStr ''text'' \<in> set xs)"
| "contains_text (PStr s) = Inr (is_substring ''text'' s)"
| "contains_text v = Inl TypeError"

text \<open>\<open>v["text"]\<close>: only a dict can be indexed by a string.\<close>

fun getitem_text :: "pyval \<Rightarrow> exn + pyval" where
  "getitem_text (PDict kvs) =
     (case map_of kvs ''text'' of
        None \<Rightarrow> Inl (KeyError ''text'')
      | Some v \<Rightarrow> Inr v)"
| "getitem_text v = Inl TypeError"

text \<open>
  The inner loop of the canvas text extraction (lines 278-280 and 345-347):
  \<open>for element in block["rich_text"]: if "text" in element: canvas_text += element["text"] + "\n"\<close>.
\<close>

fun rich_text_loop :: "string \<Rightarrow> pyval list \<Rightarrow> exn + string" where
  "rich_text_loop canvas_text [] = Inr canvas_text"
| "rich_text_loop canvas_text (element # rest) =
     (case contains_text element of
        Inl e \<Rightarrow> Inl e
      | Inr False \<Rightarrow> rich_text_loop canvas_text rest
      | Inr True \<Rightarrow>
          (case getitem_text element of
             Inl e \<Rightarrow> Inl e
           | Inr v \<Rightarrow>
               (case add_newline v of
                  Inl e \<Rightarrow> Inl e
                | Inr line \<Rightarrow> rich_text_loop (canvas_text @ line) rest)))"

text \<open>
  The block loop (lines 274-280 and 341-347), from the text accumulated so far:
  \<open>if "text" in block: ... elif "rich_text" in block: ...\<close>.
\<close>

fun blocks_loop :: "string \<Rightarrow> (string \<times> pyval) list list \<Rightarrow> exn + string" where
  "blocks_loop canvas_text [] = Inr canvas_text"
| "blocks_loop canvas_text (block # rest) =
     (case map_of block ''text'' of
        Some v \<Rightarrow>
          (case add_newline v of
             Inl e \<Rightarrow> Inl e
           | Inr line \<Rightarrow> blocks_loop (canvas_text @ line) rest)
      | None \<Rightarrow>
          (case map_of block ''rich_text'' of
             None \<Rightarrow> blocks_loop canvas_text rest
           | Some rt \<Rightarrow>
               (case py_iter rt of
                  Inl e \<Rightarrow> Inl e
                | Inr elements \<Rightarrow>
                    (case rich_text_loop canvas_text elements of
                       Inl e \<Rightarrow> Inl e
                     | Inr t \<Rightarrow> blocks_loop t rest))))"

section \<open>Corpus builder\<close>

text \<open>Lines 145-147: \<open>if channels: workspace_data.channels = [c for c in ... if c.id in channels]\<close>.
  The parameter defaults to \<open>None\<close>; \<open>None\<close> and the empty list are both falsy.\<close>

definition filter_channels :: "string list option \<Rightarrow> workspace \<Rightarrow> workspace" where
  "filter_channels channels w =
     (case channels of
        None \<Rightarrow> w
      | Some cs \<Rightarrow>
          if cs = [] then w
          else w\<lparr>w_channels := filter (\<lambda>c. c_id c \<in> set cs) (w_channels w)\<rparr>)"

text \<open>
  Line 151: \<open>datetime.now() - timedelta(days=max_age_days)\<close>. \<open>timedelta\<close> refuses more
  than 999999999 days, and the difference must stay between \<open>datetime.min\<close> and
  \<open>datetime.max\<close> (3652059 days of 86400000000 microseconds).
\<close>

definition cutoff_date :: "datetime \<Rightarrow> int \<Rightarrow> exn + datetime" where
  "cutoff_date now days =
     (if \<bar>days\<bar> > 999999999 then Inl OverflowError
      else (let c = now - days * 86400000000
            in if 0 \<le> c \<and> c < 3652059 * 86400000000 then Inr c else Inl OverflowError))"

text \<open>Lines 150-156: \<open>if max_age_days:\<close> is false for \<open>None\<close> and for \<open>0\<close>.\<close>

definition filter_by_age :: "env \<Rightarrow> int option \<Rightarrow> workspace \<Rightarrow> exn + workspace" where
  "filter_by_age E max_age_days w =
     (case max_age_days of
        None \<Rightarrow> Inr w
      | Some days \<Rightarrow>
          if days = 0 then Inr w
          else (case cutoff_date (now_cutoff E) days of
                  Inl e \<Rightarrow> Inl e
                | Inr cutoff \<Rightarrow>
                    Inr (w\<lparr>w_channels :=
                      map (\<lambda>c. c\<lparr>c_messages :=
                             filter (\<lambda>m. m_timestamp m \<ge> cutoff) (c_messages c)\<rparr>)
                          (w_channels w)\<rparr>)))"

text \<open>Line 224: \<open>{user.id: user.real_name or user.name for user in workspace.users}\<close>.\<close>

definition display_name :: "slack_user \<Rightarrow> string" where
  "display_name u =
     (case u_real_name u of
        None \<Rightarrow> u_name u
      | Some r \<Rightarrow> if r = [] then u_name u else r)"

definition user_map :: "slack_user list \<Rightarrow> (string \<rightharpoonup> string)" where
  "user_map users = foldl (\<lambda>m u. m(u_id u \<mapsto> display_name u)) Map.empty users"

text \<open>\<open>user_map.get(uid, "Unknown")\<close>.\<close>

definition get_user_name :: "(string \<rightharpoonup> string) \<Rightarrow> string \<Rightarrow> string" where
  "get_user_name um uid = (case um uid of None \<Rightarrow> ''Unknown'' | Some n \<Rightarrow> n)"

text \<open>\<open>d.update(new)\<close> on a dict in insertion order: an existing key keeps its place, a
  new key goes to the end.\<close>

definition dict_update :: "('k \<times> 'v) list \<Rightarrow> ('k \<times> 'v) list \<Rightarrow> ('k \<times> 'v) list" where
  "dict_update d new = fold (\<lambda>kv. AList.update (fst kv) (snd kv)) new d"

text \<open>Lines 234-244.\<close>

definition message_metadata ::
  "env \<Rightarrow> (string \<rightharpoonup> string) \<Rightarrow> channel \<Rightarrow> message \<Rightarrow> (string \<times> pyval) list" where
  "message_metadata E um c m =
     [(''channel_id'', PStr (c_id c)),
      (''channel_name'', PStr (c_name c)),
      (''message_id'', PStr (m_id m)),
      (''user_id'', PStr (m_user m)),
      (''user_name'', PStr (get_user_name um (m_user m))),
      (''timestamp'', PStr (isoformat E (m_timestamp m))),
      (''has_replies'', PBool (length (m_replies m) > 0)),
      (''has_reactions'', PBool (length (m_reactions m) > 0)),
      (''source_type'', PStr ''message'')]"

text \<open>Lines 254-262: the parent's metadata, copied and updated.\<close>

definition reply_metadata ::
  "env \<Rightarrow> (string \<rightharpoonup> string) \<Rightarrow> (string \<times> pyval) list \<Rightarrow> message \<Rightarrow> message
     \<Rightarrow> (string \<times> pyval) list" where
  "reply_metadata E um md m reply =
     dict_update md
       [(''message_id'', PStr (m_id reply)),
        (''user_id'', PStr (m_user reply)),
        (''user_name'', PStr (get_user_name um (m_user reply))),
        (''timestamp'', PStr (isoformat E (m_timestamp reply))),
        (''parent_message_id'', PStr (m_id m)),
        (''source_type'', PStr ''reply'')]"

text \<open>Lines 253-267: one Document per reply of the message, whatever its text.\<close>

definition reply_document ::
  "env \<Rightarrow> (string \<rightharpoonup> string) \<Rightarrow> channel \<Rightarrow> message \<Rightarrow> message \<Rightarrow> document" where
  "reply_document E um c m reply =
     \<lparr>page_content = m_text reply,
      metadata = reply_metadata E um (message_metadata E um c m) m reply\<rparr>"

text \<open>Lines 228-267, the body of the message loop: nothing for a message whose stripped
  text is empty, else the message's Document followed by its replies'.\<close>

definition message_documents ::
  "env \<Rightarrow> (string \<rightharpoonup> string) \<Rightarrow> channel \<Rightarrow> message \<Rightarrow> document list" where
  "message_documents E um c m =
     (if strip (m_text m) = [] then []
      else \<lparr>page_content = m_text m, metadata = message_metadata E um c m\<rparr>
           # map (reply_document E um c m) (m_replies m))"

definition channel_documents ::
  "env \<Rightarrow> (string \<rightharpoonup> string) \<Rightarrow> channel \<Rightarrow> document list" where
  "channel_documents E um c = concat (map (message_documents E um c) (c_messages c))"

text \<open>Lines 270-295, the body of the canvas loop.\<close>

definition canvas_document ::
  "env \<Rightarrow> (string \<rightharpoonup> string) \<Rightarrow> canvas \<Rightarrow> exn + document" where
  "canvas_document E um cv =
     (case blocks_loop (''Canvas: '' @ cv_title cv @ [NL, NL]) (cv_content cv) of
        Inl e \<Rightarrow> Inl e
      | Inr canvas_text \<Rightarrow>
          Inr \<lparr>page_content = canvas_text,
               metadata =
                 [(''canvas_id'', PStr (cv_id cv)),
                  (''canvas_title'', PStr (cv_title cv)),
                  (''channel_id'', (case cv_channel_id cv of None \<Rightarrow> PNone | Some ch \<Rightarrow> PStr ch)),
                  (''user_id'', PStr (cv_creator cv)),
                  (''user_name'', PStr (get_user_name um (cv_creator cv))),
                  (''timestamp'', PStr (isoformat E (cv_created cv))),
                  (''source_type'', PStr ''canvas'')]\<rparr>)"

fun canvas_documents ::
  "env \<Rightarrow> (string \<rightharpoonup> string) \<Rightarrow> canvas list \<Rightarrow> exn + document list" where
  "canvas_documents E um [] = Inr []"
| "canvas_documents E um (cv # rest) =
     (case canvas_document E um cv of
        Inl e \<Rightarrow> Inl e
      | Inr d \<Rightarrow>
          (case canvas_documents E um rest of
             Inl e \<Rightarrow> Inl e
           | Inr ds \<Rightarrow> Inr (d # ds)))"

text \<open>Lines 221-295: the list \<open>documents\<close> as it stands before the splitter is called.
  The canvas loop runs over every canvas of the workspace.\<close>

definition build_documents :: "env \<Rightarrow> workspace \<Rightarrow> exn + document list" where
  "build_documents E w =
     (let um = user_map (w_users w) in
      case canvas_documents E um (w_canvases w) of
        Inl e \<Rightarrow> Inl e
      | Inr cds \<Rightarrow> Inr (concat (map (channel_documents E um) (w_channels w)) @ cds))"

text \<open>\<open>_prepare_documents\<close> (lines 219-298).\<close>

definition prepare_documents :: "env \<Rightarrow> workspace \<Rightarrow> exn + document list" where
  "prepare_documents E w =
     (case build_documents E w of
        Inl e \<Rightarrow> Inl e
      | Inr documents \<Rightarrow> split_documents E documents)"

text \<open>\<open>_create_vector_store\<close> (lines 300-302).\<close>

definition create_vector_store :: "env \<Rightarrow> document list \<Rightarrow> exn + nat" where
  "create_vector_store E documents = from_documents E documents"

section \<open>Summarization pipeline\<close>

text \<open>\<open>_generate_channel_summary\<close> (lines 304-335).\<close>

definition generate_channel_summary :: "env \<Rightarrow> channel \<Rightarrow> exn + string" where
  "generate_channel_summary E c =
     (if c_messages c = [] then Inr ''Empty channel or no recent messages.''
      else chain_run E ChannelSummaryPrompt
             [(''channel_name'', c_name c),
              (''message_text'',
                 join [NL] (map (\<lambda>msg. strftime E (m_timestamp msg) @ '' - '' @ m_text msg)
                                (take 50 (c_messages c))))])"

text \<open>\<open>_generate_canvas_summary\<close> (lines 337-371).\<close>

definition generate_canvas_summary :: "env \<Rightarrow> canvas \<Rightarrow> exn + string" where
  "generate_canvas_summary E cv =
     (case blocks_loop [] (cv_content cv) of
        Inl e \<Rightarrow> Inl e
      | Inr canvas_text \<Rightarrow>
          if strip canvas_text = [] then Inr ''Empty canvas or content could not be processed.''
          else chain_run E CanvasSummaryPrompt
                 [(''canvas_title'', cv_title cv), (''canvas_text'', canvas_text)])"

text \<open>Lines 382-386: the comprehension over \<open>enumerate(channel_summaries.items())\<close>; the
  name is read at the position of the summary, \<open>workspace.channels[i]\<close>.\<close>

fun channel_lines :: "channel list \<Rightarrow> nat \<Rightarrow> (string \<times> string) list \<Rightarrow> exn + string list" where
  "channel_lines chs i [] = Inr []"
| "channel_lines chs i (item # rest) =
     (if fst item \<in> set (map c_id chs) then
        (if i < length chs then
           (case channel_lines chs (Suc i) rest of
              Inl e \<Rightarrow> Inl e
            | Inr ls \<Rightarrow>
                Inr ((''CHANNEL: '' @ c_name (chs ! i) @ [NL] @ ''SUMMARY: '' @ snd item) # ls))
         else Inl IndexError)
      else channel_lines chs (Suc i) rest)"

text \<open>Lines 390-394.\<close>

definition canvas_lines :: "canvas list \<Rightarrow> (string \<times> string) list \<Rightarrow> string list" where
  "canvas_lines cvs canvas_summaries =
     concat (map (\<lambda>item.
         map (\<lambda>cv. ''CANVAS: '' @ cv_title cv @ [NL] @ ''SUMMARY: '' @ snd item)
             (filter (\<lambda>cv. cv_id cv = fst item) cvs))
       canvas_summaries)"

text \<open>Lines 397-403.\<close>

definition instruction_text :: "string option \<Rightarrow> string" where
  "instruction_text custom_instruction =
     (case custom_instruction of
        None \<Rightarrow> []
      | Some ci \<Rightarrow>
          if ci = [] then []
          else [NL] @ ''            Additionally, the user has provided the following specific instructions for your analysis:''
               @ [NL] @ ''            '' @ ci
               @ [NL] @ ''            Please incorporate these instructions into your summary and analysis.''
               @ [NL] @ ''            '')"

text \<open>\<open>_generate_workspace_summary\<close> (lines 373-431).\<close>

definition generate_workspace_summary ::
  "env \<Rightarrow> workspace \<Rightarrow> (string \<times> string) list \<Rightarrow> (string \<times> string) list \<Rightarrow> string option
     \<Rightarrow> exn + string" where
  "generate_workspace_summary E w channel_summaries canvas_summaries custom_instruction =
     (case channel_lines (w_channels w) 0 channel_summaries of
        Inl e \<Rightarrow> Inl e
      | Inr ls \<Rightarrow>
          (let combined = join [NL, NL] ls;
               combined_summaries =
                 (if canvas_summaries \<noteq> []
                  then combined @ [NL, NL] @ join [NL, NL] (canvas_lines (w_canvases w) canvas_summaries)
                  else combined)
           in chain_run E WorkspaceSummaryPrompt
                [(''workspace_name'', w_name w),
                 (''combined_summaries'', combined_summaries),
                 (''instruction_text'', instruction_text custom_instruction)]))"

text \<open>
  Lines 463-475, from the text the chain returned and what \<open>json.loads\<close> made of it: a
  decoded list is returned as it is; anything else, and any exception, falls back to
  \<open>insights_text.strip().split("\n")\<close>.
\<close>

definition parse_insights :: "exn + pyval \<Rightarrow> string \<Rightarrow> pyval list" where
  "parse_insights loaded insights_text =
     (case loaded of
        Inr (PList insights) \<Rightarrow> insights
      | Inr v \<Rightarrow> map PStr (split_on NL (strip insights_text))
      | Inl e \<Rightarrow> map PStr (split_on NL (strip insights_text)))"

text \<open>\<open>_extract_key_insights\<close> (lines 433-475).\<close>

definition extract_key_insights :: "env \<Rightarrow> workspace \<Rightarrow> string \<Rightarrow> exn + pyval list" where
  "extract_key_insights E w overall_summary =
     (case chain_run E KeyInsightsPrompt
             [(''workspace_name'', w_name w), (''overall_summary'', overall_summary)] of
        Inl e \<Rightarrow> Inl e
      | Inr insights_text \<Rightarrow> Inr (parse_insights (json_loads E insights_text) insights_text))"

text \<open>Lines 503-511.\<close>

definition general_topic :: pyval where
  "general_topic =
     PDict [(''name'', PStr ''General''),
            (''description'', PStr ''General discussion''),
            (''keywords'', PList [PStr ''general''])]"

definition parse_topics :: "exn + pyval \<Rightarrow> pyval list" where
  "parse_topics loaded =
     (case loaded of
        Inr (PList topics) \<Rightarrow> topics
      | Inr v \<Rightarrow> [general_topic]
      | Inl e \<Rightarrow> [general_topic])"

text \<open>\<open>_identify_topics\<close> (lines 477-513); the vector store is not used.\<close>

definition identify_topics :: "env \<Rightarrow> nat \<Rightarrow> workspace \<Rightarrow> exn + pyval list" where
  "identify_topics E vector_store w =
     (case chain_run E KeyTopicsPrompt [(''workspace_name'', w_name w)] of
        Inl e \<Rightarrow> Inl e
      | Inr topics_text \<Rightarrow> Inr (parse_topics (json_loads E topics_text)))"

text \<open>Lines 167-171: channels without messages are skipped.\<close>

fun channel_summaries_loop ::
  "env \<Rightarrow> (string \<times> string) list \<Rightarrow> channel list \<Rightarrow> exn + (string \<times> string) list" where
  "channel_summaries_loop E acc [] = Inr acc"
| "channel_summaries_loop E acc (c # rest) =
     (if c_messages c = [] then channel_summaries_loop E acc rest
      else (case generate_channel_summary E c of
              Inl e \<Rightarrow> Inl e
            | Inr s \<Rightarrow> channel_summaries_loop E (AList.update (c_id c) s acc) rest))"

text \<open>Lines 176-177.\<close>

fun canvas_summaries_loop ::
  "env \<Rightarrow> (string \<times> string) list \<Rightarrow> canvas list \<Rightarrow> exn + (string \<times> string) list" where
  "canvas_summaries_loop E acc [] = Inr acc"
| "canvas_summaries_loop E acc (cv # rest) =
     (case generate_canvas_summary E cv of
        Inl e \<Rightarrow> Inl e
      | Inr s \<Rightarrow> canvas_summaries_loop E (AList.update (cv_id cv) s acc) rest)"

text \<open>Lines 174-177: \<open>if include_canvases and workspace_data.canvases:\<close>.\<close>

definition canvas_summaries_of :: "env \<Rightarrow> bool \<Rightarrow> workspace \<Rightarrow> exn + (string \<times> string) list" where
  "canvas_summaries_of E include_canvases w =
     (if include_canvases \<and> w_canvases w \<noteq> []
      then canvas_summaries_loop E [] (w_canvases w)
      else Inr [])"

text \<open>Lines 145-156: the two filters, applied to the fetched workspace.\<close>

definition filter_workspace ::
  "env \<Rightarrow> string list option \<Rightarrow> int option \<Rightarrow> workspace \<Rightarrow> exn + workspace" where
  "filter_workspace E channels max_age_days w =
     filter_by_age E max_age_days (filter_channels channels w)"

text \<open>Lines 160-206, on the filtered workspace: the corpus, the empty-corpus check, the
  five steps and the result.\<close>

definition summarize ::
  "env \<Rightarrow> string \<Rightarrow> bool \<Rightarrow> string option \<Rightarrow> workspace \<Rightarrow> exn + result" where
  "summarize E workspace_id include_canvases custom_instruction w =
     (case prepare_documents E w of
        Inl e \<Rightarrow> Inl e
      | Inr documents \<Rightarrow>
     if documents = [] then Inl (ProcessingError ''No data to process after filtering'')
     else
     (case create_vector_store E documents of
        Inl e \<Rightarrow> Inl e
      | Inr vector_store \<Rightarrow>
     (case channel_summaries_loop E [] (w_channels w) of
        Inl e \<Rightarrow> Inl e
      | Inr channel_summaries \<Rightarrow>
     (case canvas_summaries_of E include_canvases w of
        Inl e \<Rightarrow> Inl e
      | Inr canvas_summaries \<Rightarrow>
     (case generate_workspace_summary E w channel_summaries canvas_summaries custom_instruction of
        Inl e \<Rightarrow> Inl e
      | Inr overall_summary \<Rightarrow>
     (case extract_key_insights E w overall_summary of
        Inl e \<Rightarrow> Inl e
      | Inr key_insights \<Rightarrow>
     (case identify_topics E vector_store w of
        Inl e \<Rightarrow> Inl e
      | Inr topics \<Rightarrow>
          validate_result E
            \<lparr>r_workspace_id = workspace_id,
             r_summary = overall_summary,
             r_channel_summaries = channel_summaries,
             r_canvas_summaries = canvas_summaries,
             r_key_insights = key_insights,
             r_topics = topics,
             r_processing_time = now_processing_time E\<rparr>)))))))"

text \<open>Lines 143-206: what the \<open>try\<close> block computes after the first status write, an
  exception or the result.\<close>

definition run_pipeline ::
  "env \<Rightarrow> string \<Rightarrow> string list option \<Rightarrow> bool \<Rightarrow> int option \<Rightarrow> string option
     \<Rightarrow> exn + result" where
  "run_pipeline E workspace_id channels include_canvases max_age_days custom_instruction =
     (case fetch_all_workspace_data E workspace_id of
        Inl e \<Rightarrow> Inl e
      | Inr workspace_data \<Rightarrow>
          (case filter_workspace E channels max_age_days workspace_data of
             Inl e \<Rightarrow> Inl e
           | Inr w \<Rightarrow> summarize E workspace_id include_canvases custom_instruction w))"

section \<open>Task manager\<close>

record params =
  p_channels :: "string list option"
  p_include_canvases :: bool
  p_max_age_days :: "int option"
  p_custom_instruction :: "string option"

record task =
  t_workspace_id :: string
  status :: string
  started_at :: datetime
  completed_at :: "datetime option"
  parameters :: params
  results :: "result option"
  error :: "string option"

type_synonym registry = "string \<rightharpoonup> task"

text \<open>Line 140 and lines 209-211, 215-217: a subscript of \<open>self.processing_tasks\<close> by an
  unknown id raises \<open>KeyError\<close>.\<close>

definition mark_processing :: "registry \<Rightarrow> string \<Rightarrow> exn + registry" where
  "mark_processing reg task_id =
     (case reg task_id of
        None \<Rightarrow> Inl (KeyError task_id)
      | Some t \<Rightarrow> Inr (reg(task_id \<mapsto> t\<lparr>status := ''processing''\<rparr>)))"

definition store_completed :: "registry \<Rightarrow> string \<Rightarrow> datetime \<Rightarrow> result \<Rightarrow> exn + registry" where
  "store_completed reg task_id now r =
     (case reg task_id of
        None \<Rightarrow> Inl (KeyError task_id)
      | Some t \<Rightarrow>
          Inr (reg(task_id \<mapsto> t\<lparr>status := ''completed'', completed_at := Some now,
                                 results := Some r\<rparr>)))"

definition store_failed :: "env \<Rightarrow> registry \<Rightarrow> string \<Rightarrow> exn \<Rightarrow> exn + registry" where
  "store_failed E reg task_id e =
     (case reg task_id of
        None \<Rightarrow> Inl (KeyError task_id)
      | Some t \<Rightarrow>
          Inr (reg(task_id \<mapsto> t\<lparr>status := ''failed'', error := Some (exn_str E e),
                                 completed_at := Some (now_completed_at E)\<rparr>)))"

text \<open>Lines 208-217: the end of a run, from the outcome of the \<open>try\<close> block so far. An
  exception goes to the handler; an escaping \<open>KeyError\<close> is the value \<open>Inl\<close>.\<close>

definition finish_run :: "env \<Rightarrow> registry \<Rightarrow> string \<Rightarrow> exn + result \<Rightarrow> exn + registry" where
  "finish_run E reg task_id outcome =
     (case outcome of
        Inl e \<Rightarrow> store_failed E reg task_id e
      | Inr r \<Rightarrow>
          (case store_completed reg task_id (now_completed_at E) r of
             Inl e \<Rightarrow> store_failed E reg task_id e
           | Inr reg' \<Rightarrow> Inr reg'))"

text \<open>\<open>_process_workspace_data\<close> (lines 128-217), run without interruption.\<close>

definition process_workspace_data ::
  "env \<Rightarrow> registry \<Rightarrow> string \<Rightarrow> string \<Rightarrow> string list option \<Rightarrow> bool \<Rightarrow> int option
     \<Rightarrow> string option \<Rightarrow> exn + registry" where
  "process_workspace_data E reg task_id workspace_id channels include_canvases max_age_days
       custom_instruction =
     (case mark_processing reg task_id of
        Inl e \<Rightarrow> store_failed E reg task_id e
      | Inr reg1 \<Rightarrow>
          finish_run E reg1 task_id
            (run_pipeline E workspace_id channels include_canvases max_age_days
               custom_instruction))"

text \<open>The arguments \<open>executor.submit\<close> is given (lines 88-96).\<close>

record job =
  j_task_id :: string
  j_workspace_id :: string
  j_channels :: "string list option"
  j_include_canvases :: bool
  j_max_age_days :: "int option"
  j_custom_instruction :: "string option"

text \<open>
  One assignment \<open>self.processing_tasks[task_id][field] = value\<close> of a worker run
  (lines 140, 209-211, 215-217).
\<close>

datatype field_write =
    SetStatus string
  | SetCompletedAt datetime
  | SetResults result
  | SetError string

fun apply_write :: "field_write \<Rightarrow> task \<Rightarrow> task" where
  "apply_write (SetStatus s) t = t\<lparr>status := s\<rparr>"
| "apply_write (SetCompletedAt now) t = t\<lparr>completed_at := Some now\<rparr>"
| "apply_write (SetResults r) t = t\<lparr>results := Some r\<rparr>"
| "apply_write (SetError msg) t = t\<lparr>error := Some msg\<rparr>"

definition write_task :: "registry \<Rightarrow> string \<Rightarrow> field_write \<Rightarrow> exn + registry" where
  "write_task reg task_id w =
     (case reg task_id of
        None \<Rightarrow> Inl (KeyError task_id)
      | Some t \<Rightarrow> Inr (reg(task_id \<mapsto> apply_write w t)))"

text \<open>
  The assignments that close a run, in the order of the source: lines 209-211 when the
  \<open>try\<close> block came to its end with a result, lines 215-217 in the handler.
\<close>

definition closing_writes :: "env \<Rightarrow> exn + result \<Rightarrow> field_write list" where
  "closing_writes E outcome =
     (case outcome of
        Inr r \<Rightarrow> [SetStatus ''completed'', SetCompletedAt (now_completed_at E), SetResults r]
      | Inl e \<Rightarrow> [SetStatus ''failed'', SetError (exn_str E e),
                  SetCompletedAt (now_completed_at E)])"

text \<open>
  The service object: the registry \<open>self.processing_tasks\<close> and the executor, as the
  queue of submitted jobs no worker thread has taken yet and the runs of the worker
  threads (\<open>max_workers=2\<close>). A run is its job and where it stands: \<open>None\<close> while it is
  inside the \<open>try\<close> block, after line 140; \<open>Some ws\<close> when the closing assignments \<open>ws\<close>
  are still to be made.
\<close>

type_synonym run = "job \<times> field_write list option"

record service =
  processing_tasks :: registry
  pending :: "job list"
  running :: "run list"

text \<open>\<open>__init__\<close> (lines 33-34).\<close>

definition init_service :: service where
  "init_service = \<lparr>processing_tasks = Map.empty, pending = [], running = []\<rparr>"

definition max_workers :: nat where
  "max_workers = 2"

text \<open>\<open>start_processing_task\<close> (lines 48-98); \<open>task_id\<close> is the string \<open>uuid.uuid4()\<close>
  produced and \<open>now\<close> the clock at line 75.\<close>

definition start_processing_task ::
  "service \<Rightarrow> string \<Rightarrow> datetime \<Rightarrow> string \<Rightarrow> string list option \<Rightarrow> bool \<Rightarrow> int option
     \<Rightarrow> string option \<Rightarrow> string \<times> service" where
  "start_processing_task S task_id now workspace_id channels include_canvases max_age_days
       custom_instruction =
     (task_id,
      S\<lparr>processing_tasks := (processing_tasks S)(task_id \<mapsto>
           \<lparr>t_workspace_id = workspace_id,
            status = ''queued'',
            started_at = now,
            completed_at = None,
            parameters = \<lparr>p_channels = channels,
                          p_include_canvases = include_canvases,
                          p_max_age_days = max_age_days,
                          p_custom_instruction = custom_instruction\<rparr>,
            results = None,
            error = None\<rparr>),
        pending := pending S @
          [\<lparr>j_task_id = task_id,
            j_workspace_id = workspace_id,
            j_channels = channels,
            j_include_canvases = include_canvases,
            j_max_age_days = max_age_days,
            j_custom_instruction = custom_instruction\<rparr>]\<rparr>)"

record task_status =
  ts_task_id :: string
  ts_status :: string
  ts_workspace_id :: string
  ts_started_at :: datetime
  ts_completed_at :: "datetime option"
  ts_error :: "string option"

text \<open>\<open>get_task_status\<close> (lines 100-114).\<close>

definition get_task_status :: "service \<Rightarrow> string \<Rightarrow> exn + task_status" where
  "get_task_status S task_id =
     (case processing_tasks S task_id of
        None \<Rightarrow> Inl (ProcessingError (''Task '' @ task_id @ '' not found''))
      | Some t \<Rightarrow>
          Inr \<lparr>ts_task_id = task_id,
               ts_status = status t,
               ts_workspace_id = t_workspace_id t,
               ts_started_at = started_at t,
               ts_completed_at = completed_at t,
               ts_error = error t\<rparr>)"


text \<open>The job of a worker run, as the run of \<open>_process_workspace_data\<close> it stands for.\<close>

definition job_outcome :: "env \<Rightarrow> job \<Rightarrow> exn + result" where
  "job_outcome E j =
     run_pipeline E (j_workspace_id j) (j_channels j) (j_include_canvases j)
       (j_max_age_days j) (j_custom_instruction j)"

text \<open>A run that moves on: its entry among the running ones is replaced, or removed when
  no assignment is left and \<open>_process_workspace_data\<close> returns.\<close>

definition advance :: "run \<Rightarrow> field_write list \<Rightarrow> run list \<Rightarrow> run list" where
  "advance r ws rs =
     (if ws = [] then remove1 r rs
      else map (\<lambda>x. if x = r then (fst r, Some ws) else x) rs)"

text \<open>
  The operations on the service, one step each. A caller submits (the id is fresh, as a
  \<open>uuid4\<close> is), polls the status or asks for the result; the two reads return the service
  as it was. A free worker thread takes the oldest pending job and writes \<open>processing\<close>
  (line 140). A run inside the \<open>try\<close> block comes to the end of lines 143-206 in some
  environment, with a result or an exception, which fixes its closing assignments. A run
  with closing assignments left makes the next one. No lock is held anywhere, so the
  steps of callers and of the two worker threads interleave in any order, also between
  two closing assignments of one run.

  The two statements of \<open>start_processing_task\<close> (lines 72 and 89) are one step: between
  them the registry is the one after the step, and the job is not yet with the executor,
  so no worker can have taken it. A read is one step: \<open>get_task_results\<close> reads the status
  and then the result of one record, and a status that is completed stays so, so it
  returns what the function above returns in the state of its last read;
  \<open>get_task_status\<close> reads its five fields one after the other, and returns the record of
  one state when no worker writes in between.
\<close>

datatype op =
    Submit string datetime string "string list option" bool "int option" "string option"
  | Status string
  | Result string
  | WorkerBegin
  | WorkerOutcome job env
  | WorkerWrite job

inductive step :: "service \<Rightarrow> op \<Rightarrow> service \<Rightarrow> bool" where
  submit:
    "task_id \<notin> dom (processing_tasks S) \<Longrightarrow>
     step S (Submit task_id now workspace_id channels include_canvases max_age_days custom_instruction)
       (snd (start_processing_task S task_id now workspace_id channels include_canvases
               max_age_days custom_instruction))"
| poll_status:
    "step S (Status task_id) S"
| poll_result:
    "step S (Result task_id) S"
| worker_begin:
    "pending S = j # js \<Longrightarrow> length (running S) < max_workers \<Longrightarrow>
     mark_processing (processing_tasks S) (j_task_id j) = Inr reg \<Longrightarrow>
     step S WorkerBegin
       (S\<lparr>processing_tasks := reg, pending := js, running := running S @ [(j, None)]\<rparr>)"
| worker_outcome:
    "(j, None) \<in> set (running S) \<Longrightarrow>
     step S (WorkerOutcome j E)
       (S\<lparr>running := advance (j, None) (closing_writes E (job_outcome E j)) (running S)\<rparr>)"
| worker_write:
    "(j, Some (w # ws)) \<in> set (running S) \<Longrightarrow>
     write_task (processing_tasks S) (j_task_id j) w = Inr reg \<Longrightarrow>
     step S (WorkerWrite j)
       (S\<lparr>processing_tasks := reg, running := advance (j, Some (w # ws)) ws (running S)\<rparr>)"

inductive reachable :: "service \<Rightarrow> bool" where
  reach_init: "reachable init_service"
| reach_step: "reachable S \<Longrightarrow> step S a S' \<Longrightarrow> reachable S'"

text \<open>Any number of steps.\<close>

inductive steps :: "service \<Rightarrow> service \<Rightarrow> bool" where
  steps_refl: "steps S S"
| steps_step: "steps S S' \<Longrightarrow> step S' a S'' \<Longrightarrow> steps S S''"


text \<open>The edges of the state machine.\<close>

definition forward :: "string \<Rightarrow> string \<Rightarrow> bool" where
  "forward a b =
     ((a = ''queued'' \<and> b = ''processing'') \<or>
      (a = ''processing'' \<and> (b = ''completed'' \<or> b = ''failed'')))"

section \<open>The invariant of the service\<close>

text \<open>
  Every job of the executor belongs to one task, and no two to the same. The task of a
  pending job is queued and untouched; the task of a run inside the \<open>try\<close> block is
  processing and untouched; the task of a run with closing assignments left has received
  the closing assignments already made, and no other; a task without a job is completed
  with a result, or failed with an error.
\<close>

definition job_ids :: "service \<Rightarrow> string list" where
  "job_ids S = map j_task_id (pending S @ map fst (running S))"

definition untouched :: "task \<Rightarrow> bool" where
  "untouched t = (results t = None \<and> error t = None)"

definition pending_ok :: "registry \<Rightarrow> job \<Rightarrow> bool" where
  "pending_ok reg j =
     (case reg (j_task_id j) of
        None \<Rightarrow> False
      | Some t \<Rightarrow> status t = ''queued'' \<and> untouched t)"

definition closing_ok :: "field_write list \<Rightarrow> task \<Rightarrow> bool" where
  "closing_ok ws t =
     (\<exists>E outcome k t0.
        k < 3 \<and> ws = drop k (closing_writes E outcome) \<and>
        status t0 = ''processing'' \<and> untouched t0 \<and>
        t = fold apply_write (take k (closing_writes E outcome)) t0)"

definition run_ok :: "registry \<Rightarrow> run \<Rightarrow> bool" where
  "run_ok reg r =
     (case reg (j_task_id (fst r)) of
        None \<Rightarrow> False
      | Some t \<Rightarrow>
          (case snd r of
             None \<Rightarrow> status t = ''processing'' \<and> untouched t
           | Some ws \<Rightarrow> closing_ok ws t))"

definition settled :: "task \<Rightarrow> bool" where
  "settled t =
     ((status t = ''completed'' \<and> results t \<noteq> None \<and> error t = None) \<or>
      (status t = ''failed'' \<and> results t = None \<and> error t \<noteq> None))"

definition wf :: "service \<Rightarrow> bool" where
  "wf S =
     (distinct (job_ids S) \<and>
      list_all (pending_ok (processing_tasks S)) (pending S) \<and>
      list_all (run_ok (processing_tasks S)) (running S) \<and>
      (\<forall>tid t. processing_tasks S tid = Some t \<longrightarrow> tid \<notin> set (job_ids S) \<longrightarrow> settled t))"

text \<open>The \<open>source_type\<close> entry of a Document's metadata.\<close>

definition source_type :: "document \<Rightarrow> pyval option" where
  "source_type d = map_of (metadata d) ''source_type''"


text \<open>The Document of a message itself (lines 247-250).\<close>

definition message_document ::
  "env \<Rightarrow> (string \<rightharpoonup> string) \<Rightarrow> channel \<Rightarrow> message \<Rightarrow> document" where
  "message_document E um c m = \<lparr>page_content = m_text m, metadata = message_metadata E um c m\<rparr>"


text \<open>The steps of callers alone: any number of operations none of which is a worker's.\<close>

fun is_worker_op :: "op \<Rightarrow> bool" where
  "is_worker_op WorkerBegin = True"
| "is_worker_op (WorkerOutcome j E) = True"
| "is_worker_op (WorkerWrite j) = True"
| "is_worker_op a = False"

inductive caller_steps :: "service \<Rightarrow> service \<Rightarrow> bool" where
  caller_refl: "caller_steps S S"
| caller_step: "caller_steps S S' \<Longrightarrow> step S' a S'' \<Longrightarrow> \<not> is_worker_op a \<Longrightarrow> caller_steps S S''"


text \<open>
  The canvas blocks on which the block loop (lines 274-280) raises nothing: a \<open>text\<close> that
  is a string; or no \<open>text\<close> and no \<open>rich_text\<close>; or no \<open>text\<close> and a \<open>rich_text\<close> that can be
  iterated, each element of which either does not contain \<open>"text"\<close> or is a dict whose
  \<open>text\<close> is a string.
\<close>

fun is_str :: "pyval \<Rightarrow> bool" where
  "is_str (PStr s) = True"
| "is_str v = False"

fun element_ok :: "pyval \<Rightarrow> bool" where
  "element_ok (PDict kvs) = (case map_of kvs ''text'' of None \<Rightarrow> True | Some v \<Rightarrow> is_str v)"
| "element_ok (PList xs) = (PStr ''text'' \<notin> set xs)"
| "element_ok (PStr s) = (\<not> is_substring ''text'' s)"
| "element_ok v = False"

definition block_ok :: "(string \<times> pyval) list \<Rightarrow> bool" where
  "block_ok block =
     (case map_of block ''text'' of
        Some v \<Rightarrow> is_str v
      | None \<Rightarrow>
          (case map_of block ''rich_text'' of
             None \<Rightarrow> True
           | Some rt \<Rightarrow>
               (case py_iter rt of
                  Inl e \<Rightarrow> False
                | Inr elements \<Rightarrow> list_all element_ok elements)))"

definition canvas_ok :: "canvas \<Rightarrow> bool" where
  "canvas_ok cv = list_all block_ok (cv_content cv)"

section \<open>Example data\<close>

text \<open>Concrete collaborators, workspaces and service states on which the theorems below are
  instantiated. The example splitter returns the Documents it is given (all of them are
  far below the chunk size), the example chain answers \<open>ok\<close> and the example decoder
  rejects every text.\<close>

definition example_env :: env where
  "example_env =
     \<lparr>fetch_all_workspace_data = (\<lambda>wid. Inl (ExternalError (''Workspace '' @ wid @ '' not registered''))),
      now_cutoff = 63900000000000000,
      now_processing_time = 63900000000000001,
      now_completed_at = 63900000000000002,
      split_documents = Inr,
      from_documents = (\<lambda>ds. Inr (length ds)),
      chain_run = (\<lambda>p vars. Inr ''ok''),
      json_loads = (\<lambda>s. Inl (ExternalError ''Expecting value'')),
      isoformat = (\<lambda>t. ''T''),
      strftime = (\<lambda>t. ''T''),
      validate_result = Inr,
      describe = (\<lambda>e. ''error'')\<rparr>"

definition example_job :: job where
  "example_job =
     \<lparr>j_task_id = ''t1'', j_workspace_id = ''W1'', j_channels = None,
      j_include_canvases = True, j_max_age_days = None, j_custom_instruction = None\<rparr>"

definition example_task :: "string \<Rightarrow> task" where
  "example_task st =
     \<lparr>t_workspace_id = ''W1'', status = st, started_at = 5, completed_at = None,
      parameters = \<lparr>p_channels = None, p_include_canvases = True, p_max_age_days = None,
                    p_custom_instruction = None\<rparr>,
      results = None, error = None\<rparr>"


definition service_queued :: service where
  "service_queued =
     \<lparr>processing_tasks = [''t1'' \<mapsto> example_task ''queued''], pending = [example_job], running = []\<rparr>"

definition service_processing :: service where
  "service_processing =
     \<lparr>processing_tasks = [''t1'' \<mapsto> example_task ''processing''], pending = [], running = [(example_job, None)]\<rparr>"

text \<open>The service with the example job running and the closing assignments \<open>ws\<close> left,
  and the service after its run.\<close>

definition closing_service :: "task \<Rightarrow> field_write list \<Rightarrow> service" where
  "closing_service t ws =
     \<lparr>processing_tasks = [''t1'' \<mapsto> t], pending = [], running = [(example_job, Some ws)]\<rparr>"

definition settled_service :: "task \<Rightarrow> service" where
  "settled_service t = \<lparr>processing_tasks = [''t1'' \<mapsto> t], pending = [], running = []\<rparr>"




definition example_user :: slack_user where
  "example_user =
     \<lparr>u_id = ''U1'', u_name = ''alice'', u_real_name = Some ''Alice A'', u_email = None,
      u_title = None, u_is_admin = False\<rparr>"

definition text_message :: "string \<Rightarrow> string \<Rightarrow> datetime \<Rightarrow> message list \<Rightarrow> message" where
  "text_message i txt ts rs = Message i txt ''U1'' ts [] rs None []"

definition channel_A :: channel where
  "channel_A =
     \<lparr>c_id = ''A'', c_name = ''general'', c_is_private = False, c_created = 0, c_creator = None,
      c_messages = [text_message ''1'' ''one'' 63899000000000000 [],
                    text_message ''2'' ''two'' 63899000000000001 [],
                    text_message ''3'' ''three'' 63899000000000002 []]\<rparr>"

definition channel_B :: channel where
  "channel_B =
     \<lparr>c_id = ''B'', c_name = ''random'', c_is_private = False, c_created = 0, c_creator = None,
      c_messages = []\<rparr>"

definition example_workspace :: workspace where
  "example_workspace =
     \<lparr>w_id = ''W1'', w_name = ''Acme'', w_domain = ''acme'', w_users = [example_user],
      w_channels = [channel_A, channel_B], w_canvases = [], w_extraction_time = 63900000000000000\<rparr>"

definition success_env :: env where
  "success_env = example_env\<lparr>fetch_all_workspace_data := (\<lambda>wid. Inr example_workspace)\<rparr>"






definition blank_workspace :: workspace where
  "blank_workspace =
     \<lparr>w_id = ''W1'', w_name = ''Acme'', w_domain = ''acme'', w_users = [example_user],
      w_channels =
        [\<lparr>c_id = ''A'', c_name = ''general'', c_is_private = False, c_created = 0,
          c_creator = None,
          c_messages = [text_message ''1'' '''' 63899000000000000 [],
                        text_message ''2'' ''  '' 63899000000000001
                          [text_message ''3'' ''a reply'' 63899000000000002 []]]\<rparr>],
      w_canvases = [], w_extraction_time = 63900000000000000\<rparr>"

definition blank_env :: env where
  "blank_env = example_env\<lparr>fetch_all_workspace_data := (\<lambda>wid. Inr blank_workspace)\<rparr>"

definition no_data_task :: task where
  "no_data_task =
     (example_task ''failed'')\<lparr>error := Some ''No data to process after filtering'',
                               completed_at := Some 63900000000000002\<rparr>"

definition service_no_data :: service where
  "service_no_data =
     \<lparr>processing_tasks = [''t1'' \<mapsto> no_data_task], pending = [], running = []\<rparr>"


definition old_reply :: message where
  "old_reply = text_message ''r1'' ''old reply'' (63900000000000000 - 10 * 86400000000) []"

definition recent_message :: message where
  "recent_message = text_message ''m1'' ''recent'' (63900000000000000 - 1 * 86400000000) [old_reply]"

definition old_message :: message where
  "old_message = text_message ''m0'' ''old'' (63900000000000000 - 10 * 86400000000) []"

definition thread_channel :: "message list \<Rightarrow> channel" where
  "thread_channel ms =
     \<lparr>c_id = ''A'', c_name = ''general'', c_is_private = False, c_created = 0, c_creator = None,
      c_messages = ms\<rparr>"

definition thread_workspace :: "message list \<Rightarrow> workspace" where
  "thread_workspace ms =
     \<lparr>w_id = ''W1'', w_name = ''Acme'', w_domain = ''acme'', w_users = [example_user],
      w_channels = [thread_channel ms], w_canvases = [], w_extraction_time = 63900000000000000\<rparr>"





definition plan_canvas :: canvas where
  "plan_canvas =
     \<lparr>cv_id = ''F1'', cv_title = ''Plan'', cv_created = 63899000000000000, cv_creator = ''U1'',
      cv_content = [], cv_channel_id = None\<rparr>"

definition canvas_workspace :: workspace where
  "canvas_workspace =
     \<lparr>w_id = ''W1'', w_name = ''Acme'', w_domain = ''acme'', w_users = [example_user],
      w_channels = [], w_canvases = [plan_canvas], w_extraction_time = 63900000000000000\<rparr>"

definition empty_reply_message :: message where
  "empty_reply_message =
     text_message ''m3'' ''parent'' 63899000000000005
       [text_message ''r3'' [] 63899000000000006 []]"

definition mixed_workspace :: workspace where
  "mixed_workspace =
     \<lparr>w_id = ''W1'', w_name = ''Acme'', w_domain = ''acme'', w_users = [example_user],
      w_channels = [thread_channel [text_message ''1'' ''  '' 63899000000000001 [],
                                    text_message ''2'' ''hi'' 63899000000000002 []]],
      w_canvases = [plan_canvas], w_extraction_time = 63900000000000000\<rparr>"


definition launch_canvas :: canvas where
  "launch_canvas =
     \<lparr>cv_id = ''F2'', cv_title = ''Launch'', cv_created = 63899000000000000, cv_creator = ''U1'',
      cv_content = [[(''type'', PStr ''section''), (''text'', PStr ''Launch on Friday'')]],
      cv_channel_id = None\<rparr>"

definition launch_workspace :: "canvas list \<Rightarrow> workspace" where
  "launch_workspace cvs =
     \<lparr>w_id = ''W1'', w_name = ''Acme'', w_domain = ''acme'', w_users = [example_user],
      w_channels = [channel_B], w_canvases = cvs, w_extraction_time = 63900000000000000\<rparr>"

definition launch_env :: "canvas list \<Rightarrow> env" where
  "launch_env cvs = example_env\<lparr>fetch_all_workspace_data := (\<lambda>wid. Inr (launch_workspace cvs))\<rparr>"

definition launch_result :: result where
  "launch_result =
     \<lparr>r_workspace_id = ''W1'', r_summary = ''ok'',
      r_channel_summaries = [], r_canvas_summaries = [],
      r_key_insights = [PStr ''ok''], r_topics = [general_topic],
      r_processing_time = 63900000000000001\<rparr>"


definition markdown_canvas :: canvas where
  "markdown_canvas =
     \<lparr>cv_id = ''F3'', cv_title = ''Notes'', cv_created = 63899000000000000, cv_creator = ''U1'',
      cv_content = [[(''type'', PStr ''section''),
                     (''text'', PDict [(''type'', PStr ''mrkdwn''),
                                       (''text'', PStr ''Launch on Friday'')])]],
      cv_channel_id = None\<rparr>"

section \<open>The task state machine\<close>

lemma finish_run_writes:
  "reg tid = Some t \<Longrightarrow>
   finish_run E reg tid outcome = Inr (reg(tid \<mapsto> fold apply_write (closing_writes E outcome) t))"
  by (cases outcome) (simp_all add: finish_run_def store_failed_def store_completed_def closing_writes_def)

lemma mark_processing_write:
  "mark_processing reg tid = write_task reg tid (SetStatus ''processing'')"
  by (simp add: mark_processing_def write_task_def split: option.splits)

lemma wf_init: "wf init_service"
  by (simp add: wf_def init_service_def job_ids_def)

lemma closing_writes_length: "length (closing_writes E outcome) = 3"
  by (cases outcome) (simp_all add: closing_writes_def)

lemma less_3_cases: "k < (3::nat) \<Longrightarrow> k = 0 \<or> k = 1 \<or> k = 2"
  by arith

lemma closing_ok_cases:
  assumes "closing_ok ws t"
  obtains
    (c0) n r where "ws = [SetStatus ''completed'', SetCompletedAt n, SetResults r]"
        "status t = ''processing''" "untouched t"
  | (c1) n r where "ws = [SetCompletedAt n, SetResults r]" "status t = ''completed''" "untouched t"
  | (c2) r where "ws = [SetResults r]" "status t = ''completed''" "untouched t"
  | (f0) m n where "ws = [SetStatus ''failed'', SetError m, SetCompletedAt n]"
        "status t = ''processing''" "untouched t"
  | (f1) m n where "ws = [SetError m, SetCompletedAt n]" "status t = ''failed''" "untouched t"
  | (f2) n where "ws = [SetCompletedAt n]" "status t = ''failed''" "results t = None"
        "error t \<noteq> None"
proof -
  from assms obtain E outcome k t0 where k: "k < 3"
    and ws: "ws = drop k (closing_writes E outcome)"
    and t0: "status t0 = ''processing''" "untouched t0"
    and t: "t = fold apply_write (take k (closing_writes E outcome)) t0"
    unfolding closing_ok_def by blast
  from less_3_cases[OF k] show ?thesis
  proof (elim disjE)
    assume "k = 0"
    then show ?thesis using ws t t0 c0 f0
      by (cases outcome) (auto simp: closing_writes_def)
  next
    assume "k = 1"
    then show ?thesis using ws t t0 c1 f1
      by (cases outcome) (auto simp: closing_writes_def untouched_def)
  next
    assume "k = 2"
    then have k2: "k = Suc (Suc 0)" by simp
    show ?thesis using ws t t0 c2 f2 unfolding k2
      by (cases outcome) (auto simp: closing_writes_def untouched_def)
  qed
qed

lemma closing_ok_start:
  "status t = ''processing'' \<Longrightarrow> untouched t \<Longrightarrow> closing_ok (closing_writes E outcome) t"
  unfolding closing_ok_def
  by (rule exI[of _ E], rule exI[of _ outcome], rule exI[of _ 0], rule exI[of _ t]) simp

lemma closing_ok_next:
  assumes "closing_ok (w # ws) t" and "ws \<noteq> []"
  shows "closing_ok ws (apply_write w t)"
proof -
  from assms(1) obtain E outcome k t0 where k: "k < 3"
    and ws: "w # ws = drop k (closing_writes E outcome)"
    and t0: "status t0 = ''processing''" "untouched t0"
    and t: "t = fold apply_write (take k (closing_writes E outcome)) t0"
    unfolding closing_ok_def by blast
  let ?W = "closing_writes E outcome"
  have len: "length ?W = 3" by (rule closing_writes_length)
  have w: "?W ! k = w" and d: "drop (Suc k) ?W = ws"
    using ws k len by (metis Cons_nth_drop_Suc list.inject)+
  have k': "Suc k < 3"
  proof (rule ccontr)
    assume "\<not> Suc k < 3"
    then have "drop (Suc k) ?W = []" using len by simp
    then show False using d assms(2) by simp
  qed
  have "take (Suc k) ?W = take k ?W @ [w]"
    using w k len by (simp add: take_Suc_conv_app_nth)
  then have "apply_write w t = fold apply_write (take (Suc k) ?W) t0"
    using t by simp
  then show ?thesis
    unfolding closing_ok_def using k' d t0 by blast
qed

lemma closing_ok_last:
  assumes "closing_ok [w] t"
  shows "settled (apply_write w t)"
  using assms
  by (cases rule: closing_ok_cases) (auto simp: settled_def untouched_def)


lemma pending_ok_dom: "pending_ok reg j \<Longrightarrow> j_task_id j \<in> dom reg"
  by (auto simp: pending_ok_def split: option.splits)

lemma run_ok_dom: "run_ok reg r \<Longrightarrow> j_task_id (fst r) \<in> dom reg"
  by (auto simp: run_ok_def split: option.splits)

lemma job_ids_dom:
  assumes "list_all (pending_ok reg) ps" and "list_all (run_ok reg) rs"
  shows "set (map j_task_id (ps @ map fst rs)) \<subseteq> dom reg"
  using assms by (auto simp: list_all_iff dest: pending_ok_dom run_ok_dom)

lemma pending_ok_other:
  "j_task_id j \<noteq> tid \<Longrightarrow> pending_ok (reg(tid \<mapsto> u)) j = pending_ok reg j"
  by (simp add: pending_ok_def)

lemma run_ok_other:
  "j_task_id (fst r) \<noteq> tid \<Longrightarrow> run_ok (reg(tid \<mapsto> u)) r = run_ok reg r"
  by (simp add: run_ok_def)

lemma list_all_pending_ok_other:
  assumes "list_all (pending_ok reg) ps" and "tid \<notin> j_task_id ` set ps"
  shows "list_all (pending_ok (reg(tid \<mapsto> u))) ps"
  using assms by (induction ps) (auto simp: pending_ok_other)

lemma list_all_run_ok_other:
  assumes "list_all (run_ok reg) rs" and "tid \<notin> (\<lambda>r. j_task_id (fst r)) ` set rs"
  shows "list_all (run_ok (reg(tid \<mapsto> u))) rs"
  using assms by (induction rs) (auto simp: run_ok_other)

lemma wf_parts:
  assumes "wf S"
  shows "distinct (map j_task_id (pending S) @ map (\<lambda>r. j_task_id (fst r)) (running S))"
    and "list_all (pending_ok (processing_tasks S)) (pending S)"
    and "list_all (run_ok (processing_tasks S)) (running S)"
    and "\<And>tid t. processing_tasks S tid = Some t \<Longrightarrow> tid \<notin> j_task_id ` set (pending S) \<Longrightarrow>
           tid \<notin> (\<lambda>r. j_task_id (fst r)) ` set (running S) \<Longrightarrow> settled t"
  using assms by (auto simp: wf_def job_ids_def comp_def image_iff)

lemma wfI:
  assumes "distinct (map j_task_id (pending S) @ map (\<lambda>r. j_task_id (fst r)) (running S))"
    and "list_all (pending_ok (processing_tasks S)) (pending S)"
    and "list_all (run_ok (processing_tasks S)) (running S)"
    and "\<And>tid t. processing_tasks S tid = Some t \<Longrightarrow> tid \<notin> j_task_id ` set (pending S) \<Longrightarrow>
           tid \<notin> (\<lambda>r. j_task_id (fst r)) ` set (running S) \<Longrightarrow> settled t"
  shows "wf S"
  using assms by (auto simp: wf_def job_ids_def comp_def image_iff)

lemma wf_submit:
  assumes "wf S" and "task_id \<notin> dom (processing_tasks S)"
  shows "wf (snd (start_processing_task S task_id now wid ch ic mad ci))"
proof (rule wfI)
  let ?S' = "snd (start_processing_task S task_id now wid ch ic mad ci)"
  note p = wf_parts[OF assms(1)]
  have np: "task_id \<notin> j_task_id ` set (pending S)"
    using p(2) assms(2) by (auto simp: list_all_iff dest: pending_ok_dom)
  have nr: "task_id \<notin> (\<lambda>r. j_task_id (fst r)) ` set (running S)"
    using p(3) assms(2) by (auto simp: list_all_iff dest: run_ok_dom)
  show "distinct (map j_task_id (pending ?S') @ map (\<lambda>r. j_task_id (fst r)) (running ?S'))"
    using p(1) np nr by (simp add: start_processing_task_def)
  show "list_all (pending_ok (processing_tasks ?S')) (pending ?S')"
    using list_all_pending_ok_other[OF p(2) np]
    by (simp add: start_processing_task_def pending_ok_def untouched_def)
  show "list_all (run_ok (processing_tasks ?S')) (running ?S')"
    using list_all_run_ok_other[OF p(3) nr] by (simp add: start_processing_task_def)
  fix tid t
  assume "processing_tasks ?S' tid = Some t" "tid \<notin> j_task_id ` set (pending ?S')"
    "tid \<notin> (\<lambda>r. j_task_id (fst r)) ` set (running ?S')"
  then show "settled t"
    using p(4)[of tid t] by (auto simp: start_processing_task_def split: if_splits)
qed

lemma mark_processing_cases:
  assumes "mark_processing reg tid = Inr reg'"
  obtains t where "reg tid = Some t" "reg' = reg(tid \<mapsto> t\<lparr>status := ''processing''\<rparr>)"
  using assms by (auto simp: mark_processing_def split: option.splits)

lemma write_task_cases:
  assumes "write_task reg tid w = Inr reg'"
  obtains t where "reg tid = Some t" "reg' = reg(tid \<mapsto> apply_write w t)"
  using assms by (auto simp: write_task_def split: option.splits)

lemma wf_begin:
  assumes "wf S" and "pending S = j # js"
    and "mark_processing (processing_tasks S) (j_task_id j) = Inr reg"
  shows "wf (S\<lparr>processing_tasks := reg, pending := js, running := running S @ [(j, None)]\<rparr>)"
proof (rule wfI)
  let ?S' = "S\<lparr>processing_tasks := reg, pending := js, running := running S @ [(j, None)]\<rparr>"
  note p = wf_parts[OF assms(1)]
  from assms(3) obtain t where t: "processing_tasks S (j_task_id j) = Some t"
      "reg = (processing_tasks S)(j_task_id j \<mapsto> t\<lparr>status := ''processing''\<rparr>)"
    by (rule mark_processing_cases)
  have q: "status t = ''queued''" "untouched t"
    using p(2) assms(2) t(1) by (simp_all add: pending_ok_def)
  have d: "distinct (j_task_id j # map j_task_id js @ map (\<lambda>r. j_task_id (fst r)) (running S))"
    using p(1) assms(2) by simp
  have np: "j_task_id j \<notin> j_task_id ` set js"
    and nr: "j_task_id j \<notin> (\<lambda>r. j_task_id (fst r)) ` set (running S)"
    using d by auto
  show "distinct (map j_task_id (pending ?S') @ map (\<lambda>r. j_task_id (fst r)) (running ?S'))"
    using d by auto
  have "list_all (pending_ok (processing_tasks S)) js" using p(2) assms(2) by simp
  from list_all_pending_ok_other[OF this np]
  show "list_all (pending_ok (processing_tasks ?S')) (pending ?S')" by (simp add: t(2))
  show "list_all (run_ok (processing_tasks ?S')) (running ?S')"
    using list_all_run_ok_other[OF p(3) nr] q
    by (simp add: t(2) run_ok_def untouched_def)
  fix tid u
  assume a: "processing_tasks ?S' tid = Some u" "tid \<notin> j_task_id ` set (pending ?S')"
    "tid \<notin> (\<lambda>r. j_task_id (fst r)) ` set (running ?S')"
  then have "tid \<noteq> j_task_id j" by auto
  then show "settled u"
    using p(4)[of tid u] a assms(2) by (auto simp: t(2))
qed


lemma advance_ids:
  "ws \<noteq> [] \<Longrightarrow>
   map (\<lambda>r. j_task_id (fst r)) (advance r ws rs) = map (\<lambda>r. j_task_id (fst r)) rs"
  by (induction rs) (auto simp: advance_def)

lemma advance_set:
  "ws \<noteq> [] \<Longrightarrow> x \<in> set (advance r ws rs) \<Longrightarrow> x = (fst r, Some ws) \<or> (x \<in> set rs \<and> x \<noteq> r)"
  by (auto simp: advance_def split: if_splits)

lemma same_run:
  assumes "distinct (map (\<lambda>r. j_task_id (fst r)) rs)" and "r \<in> set rs" and "x \<in> set rs"
    and "j_task_id (fst x) = j_task_id (fst r)"
  shows "x = r"
  using assms by (auto simp: distinct_map dest: inj_onD)

lemma run_ok_reg: "run_ok reg r \<Longrightarrow> reg (j_task_id (fst r)) = Some t \<Longrightarrow>
  (case snd r of None \<Rightarrow> status t = ''processing'' \<and> untouched t | Some ws \<Rightarrow> closing_ok ws t)"
  by (simp add: run_ok_def)

lemma wf_outcome:
  assumes "wf S" and "(j, None) \<in> set (running S)"
  shows "wf (S\<lparr>running := advance (j, None) (closing_writes E outcome) (running S)\<rparr>)"
proof (rule wfI)
  let ?W = "closing_writes E outcome"
  let ?S' = "S\<lparr>running := advance (j, None) ?W (running S)\<rparr>"
  note p = wf_parts[OF assms(1)]
  have ne: "?W \<noteq> []" using closing_writes_length[of E outcome] by auto
  have ids: "map (\<lambda>r. j_task_id (fst r)) (running ?S') = map (\<lambda>r. j_task_id (fst r)) (running S)"
    using advance_ids[OF ne] by simp
  show "distinct (map j_task_id (pending ?S') @ map (\<lambda>r. j_task_id (fst r)) (running ?S'))"
    using p(1) ids by simp
  show "list_all (pending_ok (processing_tasks ?S')) (pending ?S')" using p(2) by simp
  have r: "run_ok (processing_tasks S) (j, None)"
    using p(3) assms(2) by (simp add: list_all_iff)
  then obtain t where t: "processing_tasks S (j_task_id j) = Some t"
    by (auto simp: run_ok_def split: option.splits)
  from run_ok_reg[OF r] t have "status t = ''processing''" "untouched t" by simp_all
  then have "closing_ok ?W t" by (rule closing_ok_start)
  then have new: "run_ok (processing_tasks S) (j, Some ?W)"
    using t by (simp add: run_ok_def)
  show "list_all (run_ok (processing_tasks ?S')) (running ?S')"
    unfolding list_all_iff
  proof
    fix x assume "x \<in> set (running ?S')"
    then have "x = (j, Some ?W) \<or> x \<in> set (running S)"
      using advance_set[OF ne, of x "(j, None)" "running S"] by auto
    then show "run_ok (processing_tasks ?S') x"
      using new p(3) by (auto simp: list_all_iff)
  qed
  fix tid u
  assume "processing_tasks ?S' tid = Some u" "tid \<notin> j_task_id ` set (pending ?S')"
    "tid \<notin> (\<lambda>r. j_task_id (fst r)) ` set (running ?S')"
  moreover have "(\<lambda>r. j_task_id (fst r)) ` set (running ?S') = (\<lambda>r. j_task_id (fst r)) ` set (running S)"
    using ids by (metis set_map)
  ultimately show "settled u" using p(4)[of tid u] by simp
qed

lemma wf_write:
  assumes "wf S" and "(j, Some (w # ws)) \<in> set (running S)"
    and "write_task (processing_tasks S) (j_task_id j) w = Inr reg"
  shows "wf (S\<lparr>processing_tasks := reg, running := advance (j, Some (w # ws)) ws (running S)\<rparr>)"
proof -
  let ?r = "(j, Some (w # ws))"
  let ?key = "\<lambda>r. j_task_id (fst r)"
  note p = wf_parts[OF assms(1)]
  from assms(3) obtain t where t: "processing_tasks S (j_task_id j) = Some t"
      "reg = (processing_tasks S)(j_task_id j \<mapsto> apply_write w t)"
    by (rule write_task_cases)
  have "run_ok (processing_tasks S) ?r" using p(3) assms(2) by (simp add: list_all_iff)
  from run_ok_reg[OF this] t(1) have c: "closing_ok (w # ws) t" by simp
  have dr: "distinct (map ?key (running S))" using p(1) by simp
  have np: "j_task_id j \<notin> j_task_id ` set (pending S)"
    using p(1) assms(2) by (auto simp: image_iff) force
  have others: "?key x \<noteq> j_task_id j" if "x \<in> set (running S)" "x \<noteq> ?r" for x
    using same_run[OF dr assms(2) that(1)] that(2) by auto
  have pend: "list_all (pending_ok reg) (pending S)"
    unfolding t(2) using list_all_pending_ok_other[OF p(2) np] .
  show ?thesis
  proof (cases "ws = []")
    case True
    let ?S' = "S\<lparr>processing_tasks := reg, running := remove1 ?r (running S)\<rparr>"
    have d1: "distinct (running S)" using dr by (simp add: distinct_map)
    have mem: "x \<in> set (remove1 ?r (running S)) \<longleftrightarrow> x \<in> set (running S) \<and> x \<noteq> ?r" for x
      using d1 by simp
    have nr: "j_task_id j \<notin> ?key ` set (remove1 ?r (running S))"
    proof
      assume "j_task_id j \<in> ?key ` set (remove1 ?r (running S))"
      then obtain x where x: "x \<in> set (remove1 ?r (running S))" "?key x = j_task_id j"
        by (auto simp: image_iff)
      from x(1) have "x \<in> set (running S)" "x \<noteq> ?r" using mem by blast+
      from others[OF this] x(2) show False by simp
    qed
    have "wf ?S'"
    proof (rule wfI)
      have "distinct (map j_task_id (pending S) @ map ?key (remove1 ?r (running S)))"
        using p(1) set_remove1_subset[of ?r "running S"]
        by (auto simp: distinct_map intro: distinct_remove1 inj_on_subset)
      then show "distinct (map j_task_id (pending ?S') @ map ?key (running ?S'))" by simp
      show "list_all (pending_ok (processing_tasks ?S')) (pending ?S')" using pend by simp
      have "list_all (run_ok (processing_tasks S)) (remove1 ?r (running S))"
        using p(3) mem by (auto simp: list_all_iff)
      from list_all_run_ok_other[OF this nr]
      show "list_all (run_ok (processing_tasks ?S')) (running ?S')" by (simp add: t(2))
      fix tid u
      assume a: "processing_tasks ?S' tid = Some u" "tid \<notin> j_task_id ` set (pending ?S')"
        "tid \<notin> ?key ` set (running ?S')"
      show "settled u"
      proof (cases "tid = j_task_id j")
        case True
        then have "u = apply_write w t" using a(1) by (simp add: t(2))
        then show ?thesis using closing_ok_last[of w t] c \<open>ws = []\<close> by simp
      next
        case False
        have "tid \<notin> ?key ` set (running S)"
        proof
          assume "tid \<in> ?key ` set (running S)"
          then obtain x where x: "x \<in> set (running S)" "?key x = tid" by (auto simp: image_iff)
          have "x \<noteq> ?r" using x(2) False by auto
          then have "x \<in> set (running ?S')" using x(1) mem by simp
          then show False using a(3) x(2) by (auto simp: image_iff)
        qed
        then show ?thesis using p(4)[of tid u] a False by (simp add: t(2))
      qed
    qed
    then show ?thesis using True by (simp add: advance_def)
  next
    case False
    let ?S' = "S\<lparr>processing_tasks := reg, running := advance ?r ws (running S)\<rparr>"
    have ids: "map ?key (running ?S') = map ?key (running S)"
      using advance_ids[OF False] by simp
    show "wf ?S'"
    proof (rule wfI)
      show "distinct (map j_task_id (pending ?S') @ map ?key (running ?S'))"
        using p(1) ids by simp
      show "list_all (pending_ok (processing_tasks ?S')) (pending ?S')" using pend by simp
      have new: "run_ok reg (j, Some ws)"
        using closing_ok_next[OF c False] by (simp add: run_ok_def t(2))
      show "list_all (run_ok (processing_tasks ?S')) (running ?S')"
        unfolding list_all_iff
      proof
        fix x assume "x \<in> set (running ?S')"
        then have "x = (j, Some ws) \<or> (x \<in> set (running S) \<and> x \<noteq> ?r)"
          using advance_set[OF False, of x ?r "running S"] by auto
        then show "run_ok (processing_tasks ?S') x"
        proof
          assume "x = (j, Some ws)"
          then show ?thesis using new by simp
        next
          assume x: "x \<in> set (running S) \<and> x \<noteq> ?r"
          then have "run_ok (processing_tasks S) x" using p(3) by (simp add: list_all_iff)
          then show ?thesis using others x by (simp add: t(2) run_ok_other)
        qed
      qed
      fix tid u
      assume a: "processing_tasks ?S' tid = Some u" "tid \<notin> j_task_id ` set (pending ?S')"
        "tid \<notin> ?key ` set (running ?S')"
      have "?key ` set (running ?S') = ?key ` set (running S)"
        using ids by (metis set_map)
      then have n: "tid \<notin> ?key ` set (running S)" using a(3) by simp
      then have "tid \<noteq> j_task_id j" using assms(2) by force
      then show "settled u" using p(4)[of tid u] a n by (simp add: t(2))
    qed
  qed
qed

lemma wf_step:
  assumes "wf S" and "step S a S'"
  shows "wf S'"
  using assms(2)
proof (cases rule: step.cases)
  case (submit task_id now workspace_id channels include_canvases max_age_days custom_instruction)
  show ?thesis unfolding submit(2) using assms(1) submit(3) by (rule wf_submit)
next
  case (poll_status task_id)
  then show ?thesis using assms(1) by simp
next
  case (poll_result task_id)
  then show ?thesis using assms(1) by simp
next
  case (worker_begin j js reg)
  show ?thesis unfolding worker_begin(2) using assms(1) worker_begin(3,5) by (rule wf_begin)
next
  case (worker_outcome j E)
  show ?thesis unfolding worker_outcome(2) using assms(1) worker_outcome(3) by (rule wf_outcome)
next
  case (worker_write j w ws reg)
  show ?thesis unfolding worker_write(2) using assms(1) worker_write(3,4) by (rule wf_write)
qed

lemma reachable_wf: "reachable S \<Longrightarrow> wf S"
  by (induction rule: reachable.induct) (auto intro: wf_init wf_step)


lemma forward_queued: "forward ''queued'' ''processing''"
  by (simp add: forward_def)

lemma forward_processing: "forward ''processing'' ''completed''" "forward ''processing'' ''failed''"
  by (simp_all add: forward_def)


lemma closing_write_forward:
  assumes "closing_ok (w # ws) t"
  shows "status (apply_write w t) = status t \<or> forward (status t) (status (apply_write w t))"
  using assms
  by (cases rule: closing_ok_cases) (auto simp: forward_processing)

text \<open>What a step can do to the record of a task.\<close>

lemma step_task:
  assumes "wf S" and "step S a S'" and "processing_tasks S tid = Some t"
  shows "\<exists>t'. processing_tasks S' tid = Some t' \<and>
           (status t' = status t \<or> forward (status t) (status t')) \<and>
           (t' \<noteq> t \<longrightarrow> (a = WorkerBegin \<and> status t = ''queued'') \<or>
                         (\<exists>j. a = WorkerWrite j \<and> j_task_id j = tid))"
  using assms(2)
proof (cases rule: step.cases)
  case (submit task_id now workspace_id channels include_canvases max_age_days custom_instruction)
  then have "task_id \<noteq> tid" using assms(3) by auto
  then show ?thesis using assms(3) unfolding submit(2) start_processing_task_def by simp
next
  case (poll_status task_id)
  then show ?thesis using assms(3) by simp
next
  case (poll_result task_id)
  then show ?thesis using assms(3) by simp
next
  case (worker_begin j js reg)
  note p = wf_parts[OF assms(1)]
  from worker_begin(5) obtain u where u: "processing_tasks S (j_task_id j) = Some u"
      "reg = (processing_tasks S)(j_task_id j \<mapsto> u\<lparr>status := ''processing''\<rparr>)"
    by (rule mark_processing_cases)
  have q: "status u = ''queued''"
    using p(2) worker_begin(3) u(1) by (simp add: pending_ok_def)
  show ?thesis
  proof (cases "tid = j_task_id j")
    case True
    then have "t = u" using assms(3) u(1) by simp
    then show ?thesis
      unfolding worker_begin(2) u(2) using True q forward_queued worker_begin(1) by simp
  next
    case False
    then show ?thesis unfolding worker_begin(2) u(2) using assms(3) by simp
  qed
next
  case (worker_outcome j E)
  then show ?thesis using assms(3) by simp
next
  case (worker_write j w ws reg)
  note p = wf_parts[OF assms(1)]
  from worker_write(4) obtain u where u: "processing_tasks S (j_task_id j) = Some u"
      "reg = (processing_tasks S)(j_task_id j \<mapsto> apply_write w u)"
    by (rule write_task_cases)
  have "run_ok (processing_tasks S) (j, Some (w # ws))"
    using p(3) worker_write(3) by (simp add: list_all_iff)
  from run_ok_reg[OF this] u(1) have c: "closing_ok (w # ws) u" by simp
  show ?thesis
  proof (cases "tid = j_task_id j")
    case True
    then have "t = u" using assms(3) u(1) by simp
    then show ?thesis
      unfolding worker_write(2) u(2) using True closing_write_forward[OF c] worker_write(1)
      by simp
  next
    case False
    then show ?thesis unfolding worker_write(2) u(2) using assms(3) by simp
  qed
qed

lemma steps_reachable: "steps S S' \<Longrightarrow> reachable S \<Longrightarrow> reachable S'"
  by (induction rule: steps.induct) (auto intro: reachable.reach_step)


text \<open>A task with no job left: nothing touches it, and it gets no job again.\<close>

lemma step_job_ids:
  assumes "step S a S'" and "tid \<in> dom (processing_tasks S)" and "tid \<notin> set (job_ids S)"
  shows "tid \<notin> set (job_ids S')"
  using assms(1)
proof (cases rule: step.cases)
  case (submit task_id now workspace_id channels include_canvases max_age_days custom_instruction)
  then have "task_id \<noteq> tid" using assms(2) by auto
  then show ?thesis using assms(3) unfolding submit(2)
    by (auto simp: start_processing_task_def job_ids_def)
next
  case (poll_status task_id)
  then show ?thesis using assms(3) by simp
next
  case (poll_result task_id)
  then show ?thesis using assms(3) by simp
next
  case (worker_begin j js reg)
  then show ?thesis using assms(3) by (auto simp: job_ids_def)
next
  case (worker_outcome j E)
  have "closing_writes E (job_outcome E j) \<noteq> []"
    using closing_writes_length[of E "job_outcome E j"] by auto
  from advance_ids[OF this, of "(j, None)" "running S"]
  have "(\<lambda>r. j_task_id (fst r)) ` set (running S') = (\<lambda>r. j_task_id (fst r)) ` set (running S)"
    unfolding worker_outcome(2) by (simp add: set_map[symmetric] del: set_map)
  then show ?thesis using assms(3) worker_outcome(2)
    by (auto simp: job_ids_def image_iff)
next
  case (worker_write j w ws reg)
  have "set (advance (j, Some (w # ws)) ws (running S)) \<subseteq>
          insert (j, Some ws) (set (running S))"
    using set_remove1_subset[of "(j, Some (w # ws))" "running S"]
    by (auto simp: advance_def split: if_splits)
  moreover have "j_task_id j \<noteq> tid" using assms(3) worker_write(3)
    by (force simp: job_ids_def)
  ultimately show ?thesis using assms(3) unfolding worker_write(2)
    by (fastforce simp: job_ids_def image_iff)
qed

lemma step_settled:
  assumes "wf S" and "step S a S'" and "processing_tasks S tid = Some t"
    and "tid \<notin> set (job_ids S)"
  shows "processing_tasks S' tid = Some t"
proof -
  from step_task[OF assms(1,2,3)] obtain t' where t': "processing_tasks S' tid = Some t'"
    "t' \<noteq> t \<longrightarrow> (a = WorkerBegin \<and> status t = ''queued'') \<or>
                         (\<exists>j. a = WorkerWrite j \<and> j_task_id j = tid)"
    by blast
  have "settled t" using assms(1,3,4) by (simp add: wf_def)
  then have nq: "status t \<noteq> ''queued''" by (auto simp: settled_def)
  have "\<not> (\<exists>j. a = WorkerWrite j \<and> j_task_id j = tid)"
  proof
    assume "\<exists>j. a = WorkerWrite j \<and> j_task_id j = tid"
    then obtain j where j: "a = WorkerWrite j" "j_task_id j = tid" by blast
    from assms(2) j(1) obtain w ws where "(j, Some (w # ws)) \<in> set (running S)"
      by (auto elim: step.cases)
    then have "tid \<in> set (job_ids S)" using j(2) by (force simp: job_ids_def)
    then show False using assms(4) by simp
  qed
  then show ?thesis using t' nq by auto
qed



lemma step_queued: "step init_service (Submit ''t1'' 5 ''W1'' None True None None) service_queued"
proof -
  have "''t1'' \<notin> dom (processing_tasks init_service)" by (simp add: init_service_def)
  from step.submit[OF this, of 5 "''W1''" None True None None]
  show ?thesis
    by (simp add: start_processing_task_def init_service_def service_queued_def example_job_def
        example_task_def)
qed

lemma step_processing: "step service_queued WorkerBegin service_processing"
proof -
  have "step service_queued WorkerBegin
          (service_queued\<lparr>processing_tasks := [''t1'' \<mapsto> example_task ''processing''],
             pending := [], running := running service_queued @ [(example_job, None)]\<rparr>)"
    by (rule step.worker_begin)
       (simp_all add: service_queued_def max_workers_def mark_processing_def example_job_def
          example_task_def)
  then show ?thesis by (simp add: service_queued_def service_processing_def)
qed

lemma reachable_processing: "reachable service_processing"
  by (intro reachable.reach_step[OF _ step_processing]
        reachable.reach_step[OF _ step_queued] reachable.reach_init)

lemma example_job_simps:
  "j_task_id example_job = ''t1''" "j_workspace_id example_job = ''W1''"
  "j_channels example_job = None" "j_include_canvases example_job = True"
  "j_max_age_days example_job = None" "j_custom_instruction example_job = None"
  by (simp_all add: example_job_def)

text \<open>The steps of the example run: the end of the \<open>try\<close> block in any environment, and
  each closing assignment.\<close>

lemma step_outcome:
  "step service_processing (WorkerOutcome example_job E)
     (closing_service (example_task ''processing'') (closing_writes E (job_outcome E example_job)))"
proof -
  have "closing_writes E (job_outcome E example_job) \<noteq> []"
    by (cases "job_outcome E example_job") (simp_all add: closing_writes_def)
  moreover have "(example_job, None) \<in> set (running service_processing)"
    by (simp add: service_processing_def)
  from step.worker_outcome[OF this, of E]
  have "step service_processing (WorkerOutcome example_job E)
     (service_processing\<lparr>running := advance (example_job, None)
         (closing_writes E (job_outcome E example_job)) (running service_processing)\<rparr>)" .
  ultimately show ?thesis
    by (simp add: service_processing_def closing_service_def advance_def)
qed

lemma step_write:
  "step (closing_service t (w # w' # ws)) (WorkerWrite example_job)
     (closing_service (apply_write w t) (w' # ws))"
proof -
  have r: "(example_job, Some (w # w' # ws)) \<in> set (running (closing_service t (w # w' # ws)))"
    by (simp add: closing_service_def)
  have u: "write_task (processing_tasks (closing_service t (w # w' # ws))) (j_task_id example_job) w
             = Inr [''t1'' \<mapsto> apply_write w t]"
    by (simp add: write_task_def closing_service_def example_job_simps)
  from step.worker_write[OF r u] show ?thesis
    by (simp add: closing_service_def advance_def)
qed

lemma step_write_last:
  "step (closing_service t [w]) (WorkerWrite example_job) (settled_service (apply_write w t))"
proof -
  have r: "(example_job, Some [w]) \<in> set (running (closing_service t [w]))"
    by (simp add: closing_service_def)
  have u: "write_task (processing_tasks (closing_service t [w])) (j_task_id example_job) w
             = Inr [''t1'' \<mapsto> apply_write w t]"
    by (simp add: write_task_def closing_service_def example_job_simps)
  from step.worker_write[OF r u] show ?thesis
    by (simp add: closing_service_def settled_service_def advance_def)
qed














lemma example_workspace_simps:
  "w_channels example_workspace = [channel_A, channel_B]"
  "w_canvases example_workspace = []"
  "w_users example_workspace = [example_user]"
  "w_name example_workspace = ''Acme''"
  by (simp_all add: example_workspace_def)

lemma channel_simps:
  "c_id channel_A = ''A''" "c_name channel_A = ''general''"
  "c_messages channel_A = [text_message ''1'' ''one'' 63899000000000000 [],
                           text_message ''2'' ''two'' 63899000000000001 [],
                           text_message ''3'' ''three'' 63899000000000002 []]"
  "c_id channel_B = ''B''" "c_name channel_B = ''random''" "c_messages channel_B = []"
  by (simp_all add: channel_A_def channel_B_def)

lemma text_message_simps:
  "m_text (text_message i txt ts rs) = txt" "m_replies (text_message i txt ts rs) = rs"
  "m_timestamp (text_message i txt ts rs) = ts" "m_id (text_message i txt ts rs) = i"
  "m_user (text_message i txt ts rs) = ''U1''" "m_reactions (text_message i txt ts rs) = []"
  by (simp_all add: text_message_def)



















section \<open>Submission and retrieval\<close>

lemma caller_step_keeps:
  assumes "step S a S'" and "\<not> is_worker_op a" and "processing_tasks S tid = Some t"
  shows "processing_tasks S' tid = Some t"
  using assms
proof (cases rule: step.cases)
  case (submit task_id now workspace_id channels include_canvases max_age_days custom_instruction)
  then have "task_id \<noteq> tid" using assms(3) by auto
  then show ?thesis using assms(3) unfolding submit(2) start_processing_task_def by simp
qed simp_all

lemma caller_steps_keep:
  "caller_steps S S' \<Longrightarrow> processing_tasks S tid = Some t \<Longrightarrow> processing_tasks S' tid = Some t"
  by (induction rule: caller_steps.induct) (auto dest: caller_step_keeps)

text \<open>
  Claim C2. \<open>start_processing_task\<close> always returns: it returns the task id it was given by
  \<open>uuid4\<close>, and in the service it leaves behind a status call on that id succeeds with
  status queued (no completion time, no error); the job is the last of the pending jobs
  and no worker has been given anything new to run. The status call keeps returning
  queued after any number of further submissions and reads, as long as no worker step
  has been taken.
\<close>

theorem submit_creates_queued_task:
  "fst (start_processing_task S task_id now wid ch ic mad ci) = task_id \<and>
   get_task_status (snd (start_processing_task S task_id now wid ch ic mad ci))
       (fst (start_processing_task S task_id now wid ch ic mad ci)) =
     Inr \<lparr>ts_task_id = task_id, ts_status = ''queued'', ts_workspace_id = wid,
          ts_started_at = now, ts_completed_at = None, ts_error = None\<rparr> \<and>
   running (snd (start_processing_task S task_id now wid ch ic mad ci)) = running S \<and>
   pending (snd (start_processing_task S task_id now wid ch ic mad ci)) =
     pending S @ [\<lparr>j_task_id = task_id, j_workspace_id = wid, j_channels = ch,
                   j_include_canvases = ic, j_max_age_days = mad, j_custom_instruction = ci\<rparr>] \<and>
   (\<forall>S'. caller_steps (snd (start_processing_task S task_id now wid ch ic mad ci)) S' \<longrightarrow>
      get_task_status S' task_id =
        Inr \<lparr>ts_task_id = task_id, ts_status = ''queued'', ts_workspace_id = wid,
             ts_started_at = now, ts_completed_at = None, ts_error = None\<rparr>)"
proof -
  let ?S1 = "snd (start_processing_task S task_id now wid ch ic mad ci)"
  let ?t = "\<lparr>t_workspace_id = wid, status = ''queued'', started_at = now, completed_at = None,
             parameters = \<lparr>p_channels = ch, p_include_canvases = ic, p_max_age_days = mad,
                            p_custom_instruction = ci\<rparr>,
             results = None, error = None\<rparr>"
  have t: "processing_tasks ?S1 task_id = Some ?t"
    by (simp add: start_processing_task_def)
  have later: "get_task_status S' task_id =
        Inr \<lparr>ts_task_id = task_id, ts_status = ''queued'', ts_workspace_id = wid,
             ts_started_at = now, ts_completed_at = None, ts_error = None\<rparr>"
    if "caller_steps ?S1 S'" for S'
    using caller_steps_keep[OF that t] by (simp add: get_task_status_def)
  show ?thesis using later
    by (simp add: start_processing_task_def get_task_status_def)
qed

theorem submit_creates_queued_task_witness:
  "snd (start_processing_task init_service ''t1'' 5 ''W1'' None True None None) = service_queued \<and>
   step service_queued (Status ''t1'') service_queued \<and>
   caller_steps service_queued service_queued \<and>
   get_task_status service_queued ''t1'' =
     Inr \<lparr>ts_task_id = ''t1'', ts_status = ''queued'', ts_workspace_id = ''W1'',
          ts_started_at = 5, ts_completed_at = None, ts_error = None\<rparr>"
proof -
  have e: "snd (start_processing_task init_service ''t1'' 5 ''W1'' None True None None) = service_queued"
    by (simp add: start_processing_task_def init_service_def service_queued_def example_job_def
        example_task_def)
  have c: "caller_steps service_queued service_queued"
    by (rule caller_steps.caller_step[OF caller_steps.caller_refl step.poll_status[of _ "''t1''"]])
       simp
  from submit_creates_queued_task[of init_service "''t1''" 5 "''W1''" None True None None]
  show ?thesis using e c step.poll_status by simp
qed








section \<open>The channel filter\<close>

lemma filter_by_age_channel_ids:
  "filter_by_age E mad w = Inr w' \<Longrightarrow> map c_id (w_channels w') = map c_id (w_channels w)"
  by (auto simp: filter_by_age_def comp_def split: option.splits if_splits sum.splits)

text \<open>
  Claim C4. With a non-empty channel filter, exactly the channels whose id is in the filter
  are retained, in their order, also in the workspace the two filters hand to the corpus
  builder; with an empty filter (or none) every channel is retained.
\<close>

theorem filter_channels_retains:
  "(cs \<noteq> [] \<longrightarrow>
      w_channels (filter_channels (Some cs) w) = filter (\<lambda>c. c_id c \<in> set cs) (w_channels w) \<and>
      (\<forall>c. c \<in> set (w_channels (filter_channels (Some cs) w)) \<longleftrightarrow>
             c \<in> set (w_channels w) \<and> c_id c \<in> set cs) \<and>
      (\<forall>E mad w'. filter_workspace E (Some cs) mad w = Inr w' \<longrightarrow>
         map c_id (w_channels w') = filter (\<lambda>i. i \<in> set cs) (map c_id (w_channels w)))) \<and>
   filter_channels (Some []) w = w \<and>
   filter_channels None w = w \<and>
   (\<forall>E mad w'. filter_workspace E (Some []) mad w = Inr w' \<longrightarrow>
      map c_id (w_channels w') = map c_id (w_channels w))"
proof -
  have a: "filter_channels (Some []) w = w" "filter_channels None w = w"
    by (simp_all add: filter_channels_def)
  have b: "w_channels (filter_channels (Some cs) w) = filter (\<lambda>c. c_id c \<in> set cs) (w_channels w)"
    if "cs \<noteq> []"
    using that by (simp add: filter_channels_def)
  have c: "map c_id (w_channels w') = filter (\<lambda>i. i \<in> set cs) (map c_id (w_channels w))"
    if "cs \<noteq> []" "filter_workspace E (Some cs) mad w = Inr w'" for E mad w'
    using filter_by_age_channel_ids[of E mad "filter_channels (Some cs) w" w'] that b
    by (simp add: filter_workspace_def filter_map comp_def)
  have d: "map c_id (w_channels w') = map c_id (w_channels w)"
    if "filter_workspace E (Some []) mad w = Inr w'" for E mad w'
    using filter_by_age_channel_ids[of E mad w w'] that a by (simp add: filter_workspace_def)
  show ?thesis using a b c d by auto
qed

theorem filter_channels_retains_witness:
  "[''B'', ''Z''] \<noteq> [] \<and>
   w_channels (filter_channels (Some [''B'', ''Z'']) example_workspace) = [channel_B] \<and>
   filter_workspace success_env (Some [''B'', ''Z'']) None example_workspace =
     Inr (example_workspace\<lparr>w_channels := [channel_B]\<rparr>) \<and>
   w_channels (filter_channels (Some []) example_workspace) = [channel_A, channel_B] \<and>
   w_channels (filter_channels None example_workspace) = [channel_A, channel_B] \<and>
   filter_workspace success_env (Some []) None example_workspace = Inr example_workspace"
  using filter_channels_retains[of "[''B'', ''Z'']" example_workspace]
  by (simp add: example_workspace_simps channel_simps filter_workspace_def filter_by_age_def
      filter_channels_def)

section \<open>The empty corpus\<close>

lemma summarize_empty:
  "prepare_documents E w = Inr [] \<Longrightarrow>
   summarize E wid ic ci w = Inl (ProcessingError ''No data to process after filtering'')"
  by (simp add: summarize_def)

lemma fold_results_None:
  "results (fold apply_write ws t) = None \<Longrightarrow> results t = None"
proof (induction ws arbitrary: t)
  case Nil
  then show ?case by simp
next
  case (Cons w ws)
  then have "results (apply_write w t) = None" by simp
  then show ?case by (cases w) simp_all
qed

lemma job_ids_iff:
  "tid \<in> set (job_ids S) \<longleftrightarrow>
   tid \<in> j_task_id ` set (pending S) \<or> tid \<in> (\<lambda>r. j_task_id (fst r)) ` set (running S)"
  by (auto simp: job_ids_def)

lemma steps_trans: "steps S' S'' \<Longrightarrow> steps S S' \<Longrightarrow> steps S S''"
  by (induction rule: steps.induct) (auto intro: steps.steps_step)

lemma advance_keeps:
  assumes "x \<in> set rs" and "x \<noteq> r"
  shows "x \<in> set (advance r ws rs)"
proof (cases "ws = []")
  case True
  then show ?thesis using assms by (simp add: advance_def)
next
  case False
  have "(\<lambda>y. if y = r then (fst r, Some ws) else y) x \<in>
          (\<lambda>y. if y = r then (fst r, Some ws) else y) ` set rs"
    using assms(1) by (rule imageI)
  then show ?thesis using False assms(2) by (simp add: advance_def)
qed

lemma advance_next:
  assumes "r \<in> set rs" and "ws \<noteq> []"
  shows "(fst r, Some ws) \<in> set (advance r ws rs)"
proof -
  have "(\<lambda>y. if y = r then (fst r, Some ws) else y) r \<in>
          (\<lambda>y. if y = r then (fst r, Some ws) else y) ` set rs"
    using assms(1) by (rule imageI)
  then show ?thesis using assms(2) by (simp add: advance_def)
qed

lemma advance_done:
  assumes "distinct (map (\<lambda>r. j_task_id (fst r)) rs)" and "r \<in> set rs"
  shows "j_task_id (fst r) \<notin> (\<lambda>r. j_task_id (fst r)) ` set (advance r [] rs)"
proof
  assume "j_task_id (fst r) \<in> (\<lambda>r. j_task_id (fst r)) ` set (advance r [] rs)"
  then obtain x where x: "x \<in> set (remove1 r rs)" "j_task_id (fst x) = j_task_id (fst r)"
    by (auto simp: advance_def)
  have d: "distinct rs" using assms(1) by (simp add: distinct_map)
  have "x \<in> set rs" using x(1) set_remove1_subset by fast
  then have "x = r" using same_run[OF assms(1,2) _ x(2)] by simp
  then show False using x(1) d by simp
qed

text \<open>A run whose remaining closing assignments lead the record of its task to \<open>T\<close>: either it
  still has assignments to make, or it has ended and the record is \<open>T\<close>.\<close>

lemma closing_step:
  assumes w: "wf S" and st: "step S a S'"
    and t: "processing_tasks S (j_task_id j) = Some t"
    and inv: "(\<exists>ws. ws \<noteq> [] \<and> (j, Some ws) \<in> set (running S) \<and> fold apply_write ws t = T) \<or>
              (j_task_id j \<notin> set (job_ids S) \<and> t = T)"
  shows "\<exists>t'. processing_tasks S' (j_task_id j) = Some t' \<and>
           ((\<exists>ws. ws \<noteq> [] \<and> (j, Some ws) \<in> set (running S') \<and> fold apply_write ws t' = T) \<or>
            (j_task_id j \<notin> set (job_ids S') \<and> t' = T))"
  using inv
proof
  assume e: "j_task_id j \<notin> set (job_ids S) \<and> t = T"
  have "processing_tasks S' (j_task_id j) = Some t"
    using step_settled[OF w st t] e by simp
  moreover have "j_task_id j \<notin> set (job_ids S')"
    using step_job_ids[OF st] t e by auto
  ultimately show ?thesis using e by simp
next
  assume "\<exists>ws. ws \<noteq> [] \<and> (j, Some ws) \<in> set (running S) \<and> fold apply_write ws t = T"
  then obtain ws where ws: "ws \<noteq> []" "(j, Some ws) \<in> set (running S)" "fold apply_write ws t = T"
    by blast
  note p = wf_parts[OF w]
  have key: "j_task_id j \<in> (\<lambda>r. j_task_id (fst r)) ` set (running S)"
    using ws(2) by force
  have np: "j_task_id j \<notin> j_task_id ` set (pending S)"
    using p(1) key by auto
  have dr: "distinct (map (\<lambda>r. j_task_id (fst r)) (running S))" using p(1) by simp
  show ?thesis
    using st
  proof (cases rule: step.cases)
    case (submit task_id now workspace_id channels include_canvases max_age_days custom_instruction)
    have "task_id \<noteq> j_task_id j" using submit(3) t by auto
    then show ?thesis
      unfolding submit(2) using t ws by (auto simp: start_processing_task_def)
  next
    case (poll_status task_id)
    then show ?thesis using t ws by auto
  next
    case (poll_result task_id)
    then show ?thesis using t ws by auto
  next
    case (worker_begin j' js reg)
    have "j_task_id j' \<noteq> j_task_id j" using np worker_begin(3) by auto
    moreover obtain u where "reg = (processing_tasks S)(j_task_id j' \<mapsto> u)"
      using worker_begin(5) by (auto elim: mark_processing_cases)
    ultimately show ?thesis
      unfolding worker_begin(2) using t ws by auto
  next
    case (worker_outcome j' E')
    have "(j, Some ws) \<in> set (advance (j', None) (closing_writes E' (job_outcome E' j')) (running S))"
      using ws(2) by (rule advance_keeps) simp
    then show ?thesis
      unfolding worker_outcome(2) using t ws(1,3) by auto
  next
    case (worker_write j' w' ws' reg)
    from worker_write(4) obtain u where u: "processing_tasks S (j_task_id j') = Some u"
      "reg = (processing_tasks S)(j_task_id j' \<mapsto> apply_write w' u)"
      by (rule write_task_cases)
    show ?thesis
    proof (cases "j_task_id j' = j_task_id j")
      case False
      have "(j, Some ws) \<in> set (advance (j', Some (w' # ws')) ws' (running S))"
        using ws(2) by (rule advance_keeps) (use False in auto)
      then show ?thesis
        unfolding worker_write(2) using t ws(1,3) u(2) False by auto
    next
      case True
      have same: "(j, Some ws) = (j', Some (w' # ws'))"
        using same_run[OF dr worker_write(3) ws(2)] True by simp
      then have j: "j' = j" and wseq: "ws = w' # ws'" by simp_all
      have ut: "u = t" using u(1) t j by simp
      have reg: "reg (j_task_id j) = Some (apply_write w' t)" using u(2) j ut by simp
      have f: "fold apply_write ws' (apply_write w' t) = T" using ws(3) wseq by simp
      show ?thesis
      proof (cases "ws' = []")
        case True
        have "j_task_id j \<notin> (\<lambda>r. j_task_id (fst r)) ` set (advance (j, Some (w' # ws')) [] (running S))"
          using advance_done[OF dr worker_write(3)] j by simp
        then have "j_task_id j \<notin> set (job_ids S')"
          unfolding worker_write(2) using np True j by (simp add: job_ids_iff)
        moreover have "processing_tasks S' (j_task_id j) = Some (apply_write w' t)"
          unfolding worker_write(2) using reg by simp
        ultimately show ?thesis using f True by simp
      next
        case False
        have "(j, Some ws') \<in> set (advance (j', Some (w' # ws')) ws' (running S))"
          using advance_next[OF worker_write(3) False] j by simp
        moreover have "processing_tasks S' (j_task_id j) = Some (apply_write w' t)"
          unfolding worker_write(2) using reg by simp
        ultimately show ?thesis unfolding worker_write(2) using f False by auto
      qed
    qed
  qed
qed

lemma closing_steps:
  assumes "steps S S'" and "reachable S"
    and "processing_tasks S (j_task_id j) = Some t"
    and "(\<exists>ws. ws \<noteq> [] \<and> (j, Some ws) \<in> set (running S) \<and> fold apply_write ws t = T) \<or>
         (j_task_id j \<notin> set (job_ids S) \<and> t = T)"
  shows "\<exists>t'. processing_tasks S' (j_task_id j) = Some t' \<and>
           ((\<exists>ws. ws \<noteq> [] \<and> (j, Some ws) \<in> set (running S') \<and> fold apply_write ws t' = T) \<or>
            (j_task_id j \<notin> set (job_ids S') \<and> t' = T))"
  using assms
proof (induction rule: steps.induct)
  case (steps_refl S)
  then show ?case by simp
next
  case (steps_step S S' a S'')
  from steps_step.IH[OF steps_step.prems] obtain t' where
    t': "processing_tasks S' (j_task_id j) = Some t'"
    "(\<exists>ws. ws \<noteq> [] \<and> (j, Some ws) \<in> set (running S') \<and> fold apply_write ws t' = T) \<or>
     (j_task_id j \<notin> set (job_ids S') \<and> t' = T)"
    by blast
  have "wf S'" using steps_reachable[OF steps_step.hyps(1) steps_step.prems(1)] by (rule reachable_wf)
  from closing_step[OF this steps_step.hyps(2) t'] show ?case .
qed

text \<open>A run with closing assignments left can make them all.\<close>

lemma run_can_end:
  assumes "wf S" and "(j, Some ws) \<in> set (running S)" and "ws \<noteq> []"
  shows "\<exists>S'. steps S S' \<and> j_task_id j \<notin> set (job_ids S')"
  using assms
proof (induction ws arbitrary: S)
  case Nil
  then show ?case by simp
next
  case (Cons w ws)
  note p = wf_parts[OF Cons.prems(1)]
  have "run_ok (processing_tasks S) (j, Some (w # ws))"
    using p(3) Cons.prems(2) by (simp add: list_all_iff)
  then obtain t where t: "processing_tasks S (j_task_id j) = Some t"
    using run_ok_dom by fastforce
  let ?S' = "S\<lparr>processing_tasks := (processing_tasks S)(j_task_id j \<mapsto> apply_write w t),
               running := advance (j, Some (w # ws)) ws (running S)\<rparr>"
  have wr: "write_task (processing_tasks S) (j_task_id j) w =
              Inr ((processing_tasks S)(j_task_id j \<mapsto> apply_write w t))"
    using t by (simp add: write_task_def)
  have st: "step S (WorkerWrite j) ?S'"
    using step.worker_write[OF Cons.prems(2) wr] .
  have w': "wf ?S'" using Cons.prems(1) st by (rule wf_step)
  have one: "steps S ?S'" using steps.steps_step[OF steps.steps_refl st] .
  show ?case
  proof (cases "ws = []")
    case True
    have key: "j_task_id j \<in> (\<lambda>r. j_task_id (fst r)) ` set (running S)"
      using Cons.prems(2) by force
    have np: "j_task_id j \<notin> j_task_id ` set (pending S)" using p(1) key by auto
    have dr: "distinct (map (\<lambda>r. j_task_id (fst r)) (running S))" using p(1) by simp
    have "j_task_id j \<notin> (\<lambda>r. j_task_id (fst r)) ` set (advance (j, Some (w # ws)) [] (running S))"
      using advance_done[OF dr Cons.prems(2)] by simp
    then have "j_task_id j \<notin> set (job_ids ?S')" using np True by (simp add: job_ids_iff)
    then show ?thesis using one by blast
  next
    case False
    have "(j, Some ws) \<in> set (running ?S')"
      using advance_next[OF Cons.prems(2) False] by simp
    from Cons.IH[OF w' this False] obtain S'' where
      "steps ?S' S''" "j_task_id j \<notin> set (job_ids S'')" by blast
    then show ?thesis using steps_trans[OF _ one] by blast
  qed
qed

lemma outcome_failure:
  assumes r: "reachable S" and st: "step S (WorkerOutcome j E) S1" and ss: "steps S1 S'"
    and o: "job_outcome E j = Inl e"
  shows "j \<notin> set (pending S') \<and>
         (\<exists>t'. processing_tasks S' (j_task_id j) = Some t' \<and> results t' = None \<and>
            (j \<notin> fst ` set (running S') \<longrightarrow>
               status t' = ''failed'' \<and> error t' = Some (exn_str E e) \<and>
               completed_at t' = Some (now_completed_at E))) \<and>
         (\<exists>S''. steps S' S'' \<and> j \<notin> fst ` set (running S''))"
proof -
  let ?W = "closing_writes E (job_outcome E j)"
  have w: "wf S" using r by (rule reachable_wf)
  from st have run: "(j, None) \<in> set (running S)"
    and S1: "S1 = S\<lparr>running := advance (j, None) ?W (running S)\<rparr>"
    by (auto elim: step.cases)
  have "run_ok (processing_tasks S) (j, None)"
    using wf_parts(3)[OF w] run by (simp add: list_all_iff)
  then obtain t0 where t0: "processing_tasks S (j_task_id j) = Some t0" "untouched t0"
    by (auto simp: run_ok_def split: option.splits)
  define T where "T = fold apply_write ?W t0"
  have T: "status T = ''failed''" "error T = Some (exn_str E e)"
    "completed_at T = Some (now_completed_at E)" "results T = None"
    using t0(2) by (simp_all add: T_def o closing_writes_def untouched_def)
  have ne: "?W \<noteq> []" using closing_writes_length[of E "job_outcome E j"] by auto
  have r1: "reachable S1" using r st by (rule reachable.reach_step)
  have "(j, Some ?W) \<in> set (running S1)"
    unfolding S1 using advance_next[OF run ne] by simp
  then have i1: "(\<exists>ws. ws \<noteq> [] \<and> (j, Some ws) \<in> set (running S1) \<and> fold apply_write ws t0 = T) \<or>
            (j_task_id j \<notin> set (job_ids S1) \<and> t0 = T)"
    using ne T_def by blast
  have t1: "processing_tasks S1 (j_task_id j) = Some t0" unfolding S1 using t0(1) by simp
  from closing_steps[OF ss r1 t1 i1] obtain t' where
    t': "processing_tasks S' (j_task_id j) = Some t'"
    and inv: "(\<exists>ws. ws \<noteq> [] \<and> (j, Some ws) \<in> set (running S') \<and> fold apply_write ws t' = T) \<or>
              (j_task_id j \<notin> set (job_ids S') \<and> t' = T)"
    by blast
  have w': "wf S'" using steps_reachable[OF ss r1] by (rule reachable_wf)
  have idle: "j \<notin> fst ` set (running S'')" if "j_task_id j \<notin> set (job_ids S'')" for S''
    using that by (force simp: job_ids_iff)
  from inv show ?thesis
  proof
    assume "\<exists>ws. ws \<noteq> [] \<and> (j, Some ws) \<in> set (running S') \<and> fold apply_write ws t' = T"
    then obtain ws where ws: "ws \<noteq> []" "(j, Some ws) \<in> set (running S')"
      "fold apply_write ws t' = T" by blast
    have key: "j_task_id j \<in> (\<lambda>r. j_task_id (fst r)) ` set (running S')"
      using ws(2) by force
    have a: "j \<notin> set (pending S')" using wf_parts(1)[OF w'] key by auto
    have b: "results t' = None" using fold_results_None[of ws t'] ws(3) T(4) by simp
    have c: "j \<in> fst ` set (running S')" using ws(2) by force
    from run_can_end[OF w' ws(2,1)] obtain S'' where
      "steps S' S''" "j_task_id j \<notin> set (job_ids S'')" by blast
    then have d: "\<exists>S''. steps S' S'' \<and> j \<notin> fst ` set (running S'')" using idle by blast
    show ?thesis using a b c d t' by blast
  next
    assume e: "j_task_id j \<notin> set (job_ids S') \<and> t' = T"
    then have a: "j \<notin> set (pending S')" by (auto simp: job_ids_iff)
    have d: "\<exists>S''. steps S' S'' \<and> j \<notin> fst ` set (running S'')"
      using idle e steps.steps_refl by blast
    show ?thesis using a d t' e T by blast
  qed
qed

text \<open>
  Claim C5. When the workspace is fetched and filtered and the corpus built from it is
  empty, the run raises ProcessingError "No data to process after filtering"; the handler
  writes status failed, that message as the error and the completion time, and leaves the
  task without a result. In the service, where the three assignments of the handler are
  steps of their own, the task has no result at any moment after the exception; the run
  can always make its assignments; and once it has ended the task is failed with that
  message and the completion time, whatever other steps were taken meanwhile or are taken
  afterwards. The job is never pending again: it is not run a second time.
\<close>

theorem empty_corpus_fails_task:
  assumes "fetch_all_workspace_data E (j_workspace_id j) = Inr workspace_data"
    and "filter_workspace E (j_channels j) (j_max_age_days j) workspace_data = Inr w"
    and "prepare_documents E w = Inr []"
  shows
    "job_outcome E j = Inl (ProcessingError ''No data to process after filtering'') \<and>
     (\<forall>reg t. reg (j_task_id j) = Some t \<longrightarrow>
        process_workspace_data E reg (j_task_id j) (j_workspace_id j) (j_channels j)
            (j_include_canvases j) (j_max_age_days j) (j_custom_instruction j) =
          Inr (reg(j_task_id j \<mapsto>
                 t\<lparr>status := ''failed'',
                   error := Some ''No data to process after filtering'',
                   completed_at := Some (now_completed_at E)\<rparr>))) \<and>
     (\<forall>S S1 S'. reachable S \<longrightarrow> step S (WorkerOutcome j E) S1 \<longrightarrow> steps S1 S' \<longrightarrow>
        j \<notin> set (pending S') \<and>
        (\<exists>t'. processing_tasks S' (j_task_id j) = Some t' \<and> results t' = None \<and>
           (j \<notin> fst ` set (running S') \<longrightarrow>
              status t' = ''failed'' \<and>
              error t' = Some ''No data to process after filtering'' \<and>
              completed_at t' = Some (now_completed_at E))) \<and>
        (\<exists>S''. steps S' S'' \<and> j \<notin> fst ` set (running S'')))"
proof -
  have o: "job_outcome E j = Inl (ProcessingError ''No data to process after filtering'')"
    using assms by (simp add: job_outcome_def run_pipeline_def summarize_empty)
  have p: "process_workspace_data E reg (j_task_id j) (j_workspace_id j) (j_channels j)
            (j_include_canvases j) (j_max_age_days j) (j_custom_instruction j) =
          Inr (reg(j_task_id j \<mapsto>
                 t\<lparr>status := ''failed'',
                   error := Some ''No data to process after filtering'',
                   completed_at := Some (now_completed_at E)\<rparr>))"
    if "reg (j_task_id j) = Some t" for reg t
    using o that
    by (simp add: process_workspace_data_def mark_processing_def finish_run_def store_failed_def
        job_outcome_def)
  have s: "j \<notin> set (pending S') \<and>
        (\<exists>t'. processing_tasks S' (j_task_id j) = Some t' \<and> results t' = None \<and>
           (j \<notin> fst ` set (running S') \<longrightarrow>
              status t' = ''failed'' \<and>
              error t' = Some ''No data to process after filtering'' \<and>
              completed_at t' = Some (now_completed_at E))) \<and>
        (\<exists>S''. steps S' S'' \<and> j \<notin> fst ` set (running S''))"
    if "reachable S" "step S (WorkerOutcome j E) S1" "steps S1 S'" for S S1 S'
    using outcome_failure[OF that o] by simp
  show ?thesis using o p s by blast
qed

lemma blank_documents: "prepare_documents blank_env blank_workspace = Inr []"
  by (simp add: prepare_documents_def build_documents_def blank_env_def example_env_def
      blank_workspace_def channel_documents_def message_documents_def text_message_def
      strip_def isspace_def Let_def)

lemma blank_env_clock: "now_completed_at blank_env = 63900000000000002"
  by (simp add: blank_env_def example_env_def)

lemma step_no_data_1:
  "step (closing_service (example_task ''processing'')
           [SetStatus ''failed'', SetError ''No data to process after filtering'',
            SetCompletedAt 63900000000000002])
        (WorkerWrite example_job)
        (closing_service (example_task ''failed'')
           [SetError ''No data to process after filtering'', SetCompletedAt 63900000000000002])"
  using step_write[of "example_task ''processing''" "SetStatus ''failed''"]
  by (simp add: example_task_def)

lemma step_no_data_2:
  "step (closing_service (example_task ''failed'')
           [SetError ''No data to process after filtering'', SetCompletedAt 63900000000000002])
        (WorkerWrite example_job)
        (closing_service
           ((example_task ''failed'')\<lparr>error := Some ''No data to process after filtering''\<rparr>)
           [SetCompletedAt 63900000000000002])"
  using step_write[of "example_task ''failed''" "SetError ''No data to process after filtering''"]
  by simp

lemma step_no_data_3:
  "step (closing_service
           ((example_task ''failed'')\<lparr>error := Some ''No data to process after filtering''\<rparr>)
           [SetCompletedAt 63900000000000002])
        (WorkerWrite example_job) service_no_data"
  using step_write_last[of
      "(example_task ''failed'')\<lparr>error := Some ''No data to process after filtering''\<rparr>"
      "SetCompletedAt 63900000000000002"]
  by (simp add: service_no_data_def settled_service_def no_data_task_def)

theorem empty_corpus_fails_task_witness:
  "fetch_all_workspace_data blank_env (j_workspace_id example_job) = Inr blank_workspace \<and>
   filter_workspace blank_env (j_channels example_job) (j_max_age_days example_job) blank_workspace
     = Inr blank_workspace \<and>
   prepare_documents blank_env blank_workspace = Inr [] \<and>
   job_outcome blank_env example_job = Inl (ProcessingError ''No data to process after filtering'') \<and>
   process_workspace_data blank_env [''t1'' \<mapsto> example_task ''queued''] ''t1'' ''W1'' None True
     None None = Inr [''t1'' \<mapsto> no_data_task] \<and>
   reachable service_processing \<and>
   step service_processing (WorkerOutcome example_job blank_env)
     (closing_service (example_task ''processing'')
        [SetStatus ''failed'', SetError ''No data to process after filtering'',
         SetCompletedAt 63900000000000002]) \<and>
   steps (closing_service (example_task ''processing'')
            [SetStatus ''failed'', SetError ''No data to process after filtering'',
             SetCompletedAt 63900000000000002])
         (closing_service (example_task ''failed'')
            [SetError ''No data to process after filtering'', SetCompletedAt 63900000000000002]) \<and>
   example_job \<in> fst ` set (running (closing_service (example_task ''failed'')
            [SetError ''No data to process after filtering'', SetCompletedAt 63900000000000002])) \<and>
   processing_tasks (closing_service (example_task ''failed'')
            [SetError ''No data to process after filtering'', SetCompletedAt 63900000000000002])
      ''t1'' = Some (example_task ''failed'') \<and>
   results (example_task ''failed'') = None \<and>
   steps (closing_service (example_task ''processing'')
            [SetStatus ''failed'', SetError ''No data to process after filtering'',
             SetCompletedAt 63900000000000002])
         service_no_data \<and>
   example_job \<notin> set (pending service_no_data) \<and>
   example_job \<notin> fst ` set (running service_no_data) \<and>
   processing_tasks service_no_data ''t1'' = Some no_data_task \<and>
   status no_data_task = ''failed'' \<and>
   error no_data_task = Some ''No data to process after filtering'' \<and>
   completed_at no_data_task = Some 63900000000000002 \<and>
   results no_data_task = None"
proof -
  let ?S1 = "closing_service (example_task ''processing'')
        [SetStatus ''failed'', SetError ''No data to process after filtering'',
         SetCompletedAt 63900000000000002]"
  let ?S2 = "closing_service (example_task ''failed'')
        [SetError ''No data to process after filtering'', SetCompletedAt 63900000000000002]"
  have a: "fetch_all_workspace_data blank_env (j_workspace_id example_job) = Inr blank_workspace"
    by (simp add: blank_env_def)
  have b: "filter_workspace blank_env (j_channels example_job) (j_max_age_days example_job)
             blank_workspace = Inr blank_workspace"
    by (simp add: filter_workspace_def filter_channels_def filter_by_age_def example_job_def)
  note inst = empty_corpus_fails_task[OF a b blank_documents]
  have o: "job_outcome blank_env example_job =
             Inl (ProcessingError ''No data to process after filtering'')"
    using inst by simp
  have cw: "closing_writes blank_env (job_outcome blank_env example_job) =
              [SetStatus ''failed'', SetError ''No data to process after filtering'',
               SetCompletedAt 63900000000000002]"
    by (simp add: o closing_writes_def blank_env_clock)
  have s0: "step service_processing (WorkerOutcome example_job blank_env) ?S1"
    using step_outcome[of blank_env] by (simp add: cw)
  have s1: "steps ?S1 ?S2"
    by (rule steps.steps_step[OF steps.steps_refl step_no_data_1])
  have s3: "steps ?S1 service_no_data"
    by (rule steps.steps_step[OF steps.steps_step[OF s1 step_no_data_2] step_no_data_3])
  have q: "process_workspace_data blank_env [''t1'' \<mapsto> example_task ''queued''] ''t1'' ''W1'' None
             True None None = Inr [''t1'' \<mapsto> no_data_task]"
    using inst by (simp add: example_job_simps no_data_task_def example_task_def blank_env_clock)
  have m: "example_job \<in> fst ` set (running ?S2)"
    "processing_tasks ?S2 ''t1'' = Some (example_task ''failed'')"
    "results (example_task ''failed'') = None"
    by (simp_all add: closing_service_def example_task_def)
  have e: "example_job \<notin> set (pending service_no_data)"
    "example_job \<notin> fst ` set (running service_no_data)"
    "processing_tasks service_no_data ''t1'' = Some no_data_task"
    by (simp_all add: service_no_data_def)
  have f: "status no_data_task = ''failed''"
    "error no_data_task = Some ''No data to process after filtering''"
    "completed_at no_data_task = Some 63900000000000002"
    "results no_data_task = None"
    by (simp_all add: no_data_task_def example_task_def)
  show ?thesis
    using a b blank_documents o q reachable_processing s0 s1 m s3 e f
    by (intro conjI)
qed

section \<open>The age filter\<close>

lemma message_documents_messages:
  "message_documents E um (c\<lparr>c_messages := ms\<rparr>) = message_documents E um c"
  by (rule ext) (simp add: message_documents_def message_metadata_def reply_document_def)

lemma channel_documents_filtered:
  "channel_documents E um (c\<lparr>c_messages := filter P (c_messages c)\<rparr>) =
     concat (map (message_documents E um c) (filter P (c_messages c)))"
  by (simp add: channel_documents_def message_documents_messages)

text \<open>
  Claim C7, as the code has it. When max_age_days is a non-zero number of days and the
  cutoff, now minus that many days, is a datetime, the age filter succeeds; in every
  channel it keeps exactly the top-level messages whose timestamp is at or after the
  cutoff, as they are, and drops the others with their replies. The corpus of a channel
  is then built from the kept messages alone, and a kept message with text brings its own
  Document and one for each of its replies: no reply is compared with the cutoff.
\<close>

theorem age_filter_drops_by_parent:
  assumes "days \<noteq> 0" and "cutoff_date (now_cutoff E) days = Inr cutoff"
  shows "\<exists>w'. filter_by_age E (Some days) w = Inr w' \<and>
           length (w_channels w') = length (w_channels w) \<and>
           (\<forall>i < length (w_channels w).
              c_id (w_channels w' ! i) = c_id (w_channels w ! i) \<and>
              c_messages (w_channels w' ! i) =
                filter (\<lambda>m. cutoff \<le> m_timestamp m) (c_messages (w_channels w ! i)) \<and>
              channel_documents E um (w_channels w' ! i) =
                concat (map (message_documents E um (w_channels w ! i))
                            (filter (\<lambda>m. cutoff \<le> m_timestamp m) (c_messages (w_channels w ! i))))) \<and>
           (\<forall>c m. strip (m_text m) \<noteq> [] \<longrightarrow>
              message_documents E um c m =
                \<lparr>page_content = m_text m, metadata = message_metadata E um c m\<rparr>
                # map (reply_document E um c m) (m_replies m))"
  using assms
  by (simp add: filter_by_age_def channel_documents_filtered message_documents_def)

lemma cutoff_7: "cutoff_date (now_cutoff example_env) 7 = Inr 63899395200000000"
  by (simp add: cutoff_date_def example_env_def)

theorem age_filter_drops_by_parent_witness:
  "(7::int) \<noteq> 0 \<and> cutoff_date (now_cutoff example_env) 7 = Inr 63899395200000000 \<and>
   filter_by_age example_env (Some 7) (thread_workspace [old_message, recent_message]) =
     Inr (thread_workspace [recent_message]) \<and>
   m_timestamp old_message < 63899395200000000 \<and>
   63899395200000000 \<le> m_timestamp recent_message \<and>
   channel_documents example_env (user_map [example_user]) (thread_channel [recent_message]) =
     message_documents example_env (user_map [example_user])
       (thread_channel [old_message, recent_message]) recent_message"
proof -
  have n: "(7::int) \<noteq> 0" by simp
  from age_filter_drops_by_parent[OF n cutoff_7,
      of "thread_workspace [old_message, recent_message]" "user_map [example_user]"]
  obtain w' where w':
    "filter_by_age example_env (Some 7) (thread_workspace [old_message, recent_message]) = Inr w'"
    "channel_documents example_env (user_map [example_user]) (w_channels w' ! 0) =
       concat (map (message_documents example_env (user_map [example_user])
                      (w_channels (thread_workspace [old_message, recent_message]) ! 0))
                   (filter (\<lambda>m. 63899395200000000 \<le> m_timestamp m)
                      (c_messages (w_channels (thread_workspace [old_message, recent_message]) ! 0))))"
    by (auto simp: thread_workspace_def)
  have f: "filter_by_age example_env (Some 7) (thread_workspace [old_message, recent_message]) =
     Inr (thread_workspace [recent_message])"
    by (simp add: filter_by_age_def cutoff_7 thread_workspace_def thread_channel_def
        old_message_def recent_message_def text_message_def)
  have ts: "m_timestamp old_message < 63899395200000000"
    "63899395200000000 \<le> m_timestamp recent_message"
    by (simp_all add: old_message_def recent_message_def text_message_def)
  from w' f have "w' = thread_workspace [recent_message]" by simp
  with w'(2) ts show ?thesis
    using n cutoff_7 f by (simp add: thread_workspace_def thread_channel_def)
qed

theorem age_filter_counterexample:
  "filter_by_age example_env (Some 7) (thread_workspace [old_message, recent_message]) =
     Inr (thread_workspace [recent_message]) \<and>
   cutoff_date (now_cutoff example_env) 7 = Inr 63899395200000000 \<and>
   m_replies recent_message = [old_reply] \<and>
   m_timestamp old_reply < 63899395200000000 \<and>
   map_sum id (map page_content)
     (prepare_documents example_env (thread_workspace [recent_message])) =
       Inr [''recent'', ''old reply''] \<and>
   cutoff_date (now_cutoff example_env) 0 = Inr (now_cutoff example_env) \<and>
   m_timestamp old_message < now_cutoff example_env \<and>
   filter_by_age example_env (Some 0) (thread_workspace [old_message, recent_message]) =
     Inr (thread_workspace [old_message, recent_message])"
  by (simp add: filter_by_age_def cutoff_date_def thread_workspace_def thread_channel_def
      old_message_def recent_message_def old_reply_def text_message_def example_env_def
      prepare_documents_def build_documents_def channel_documents_def message_documents_def
      reply_document_def strip_def isspace_def Let_def)

section \<open>Documents of replies\<close>

lemma reply_metadata_list:
  "metadata (reply_document E um c m reply) =
     [(''channel_id'', PStr (c_id c)),
      (''channel_name'', PStr (c_name c)),
      (''message_id'', PStr (m_id reply)),
      (''user_id'', PStr (m_user reply)),
      (''user_name'', PStr (get_user_name um (m_user reply))),
      (''timestamp'', PStr (isoformat E (m_timestamp reply))),
      (''has_replies'', PBool (length (m_replies m) > 0)),
      (''has_reactions'', PBool (length (m_reactions m) > 0)),
      (''source_type'', PStr ''reply''),
      (''parent_message_id'', PStr (m_id m))]"
  by (simp add: reply_document_def reply_metadata_def message_metadata_def dict_update_def)

lemma source_type_reply [simp]: "source_type (reply_document E um c m r) = Some (PStr ''reply'')"
  by (simp add: source_type_def reply_metadata_list)

lemma source_type_message [simp]:
  "source_type \<lparr>page_content = txt, metadata = message_metadata E um c m\<rparr> = Some (PStr ''message'')"
  by (simp add: source_type_def message_metadata_def)

lemma canvas_document_source:
  "canvas_document E um cv = Inr d \<Longrightarrow> source_type d = Some (PStr ''canvas'')"
  by (auto simp: canvas_document_def source_type_def split: sum.splits)

lemma canvas_documents_source:
  "canvas_documents E um cvs = Inr ds \<Longrightarrow> d \<in> set ds \<Longrightarrow> source_type d = Some (PStr ''canvas'')"
  by (induction cvs arbitrary: ds)
     (auto split: sum.splits dest: canvas_document_source)


lemma build_documents_split:
  "build_documents E w = Inr docs \<Longrightarrow>
   \<exists>cds. canvas_documents E (user_map (w_users w)) (w_canvases w) = Inr cds \<and>
         docs = concat (map (channel_documents E (user_map (w_users w))) (w_channels w)) @ cds"
  by (auto simp: build_documents_def Let_def split: sum.splits)



section \<open>Documents of messages and canvases\<close>

lemma add_newline_ok: "is_str v \<Longrightarrow> \<exists>l. add_newline v = Inr l"
  by (cases v) simp_all

lemma add_newline_bad: "\<not> is_str v \<Longrightarrow> add_newline v = Inl TypeError"
  by (cases v) simp_all

lemma element_ok_step:
  assumes "element_ok e"
  shows "\<exists>t. rich_text_loop acc (e # es) = rich_text_loop t es"
proof (cases e)
  case (PDict kvs)
  show ?thesis
  proof (cases "map_of kvs ''text''")
    case None
    then have "''text'' \<notin> set (map fst kvs)" by (simp add: map_of_eq_None_iff)
    then show ?thesis using PDict by auto
  next
    case (Some v)
    then have m: "''text'' \<in> set (map fst kvs)" by (metis map_of_eq_None_iff option.distinct(1) set_map)
    have "is_str v" using assms PDict Some by simp
    then obtain l where "add_newline v = Inr l" using add_newline_ok by blast
    then show ?thesis using PDict Some m by auto
  qed
qed (use assms in auto)

lemma element_bad_step:
  assumes "\<not> element_ok e"
  shows "rich_text_loop acc (e # es) = Inl TypeError"
proof (cases e)
  case (PDict kvs)
  then obtain v where v: "map_of kvs ''text'' = Some v" "\<not> is_str v"
    using assms by (auto split: option.splits)
  then have m: "''text'' \<in> set (map fst kvs)" by (metis map_of_eq_None_iff option.distinct(1) set_map)
  show ?thesis using PDict v m by (simp add: add_newline_bad)
qed (use assms in auto)

lemma rich_text_loop_ok:
  "list_all element_ok es \<Longrightarrow> \<exists>t. rich_text_loop acc es = Inr t"
proof (induction es arbitrary: acc)
  case Nil
  then show ?case by simp
next
  case (Cons e es)
  then obtain t where "rich_text_loop acc (e # es) = rich_text_loop t es"
    using element_ok_step[of e acc es] by auto
  then show ?case using Cons.IH[of t] Cons.prems by simp
qed

lemma rich_text_loop_bad:
  "\<not> list_all element_ok es \<Longrightarrow> rich_text_loop acc es = Inl TypeError"
proof (induction es arbitrary: acc)
  case Nil
  then show ?case by simp
next
  case (Cons e es)
  show ?case
  proof (cases "element_ok e")
    case True
    then obtain t where "rich_text_loop acc (e # es) = rich_text_loop t es"
      using element_ok_step[of e acc es] by auto
    then show ?thesis using Cons.IH[of t] Cons.prems True by simp
  next
    case False
    then show ?thesis by (rule element_bad_step)
  qed
qed

lemma block_ok_step:
  assumes "block_ok b"
  shows "\<exists>t. blocks_loop acc (b # bs) = blocks_loop t bs"
proof (cases "map_of b ''text''")
  case (Some v)
  then have "is_str v" using assms by (simp add: block_ok_def)
  then obtain l where "add_newline v = Inr l" using add_newline_ok by blast
  then show ?thesis using Some by auto
next
  case None
  show ?thesis
  proof (cases "map_of b ''rich_text''")
    case n: None
    then show ?thesis using None by auto
  next
    case (Some rt)
    then obtain es where es: "py_iter rt = Inr es" "list_all element_ok es"
      using assms None by (auto simp: block_ok_def split: sum.splits)
    from rich_text_loop_ok[OF es(2)] obtain t where "rich_text_loop acc es = Inr t" by blast
    then show ?thesis using None Some es(1) by auto
  qed
qed

lemma py_iter_error: "py_iter v = Inl e \<Longrightarrow> e = TypeError"
  by (cases v) simp_all

lemma block_bad_step:
  assumes "\<not> block_ok b"
  shows "blocks_loop acc (b # bs) = Inl TypeError"
proof (cases "map_of b ''text''")
  case (Some v)
  then have "\<not> is_str v" using assms by (simp add: block_ok_def)
  then show ?thesis using Some by (simp add: add_newline_bad)
next
  case None
  then obtain rt where rt: "map_of b ''rich_text'' = Some rt"
    using assms by (auto simp: block_ok_def split: option.splits)
  show ?thesis
  proof (cases "py_iter rt")
    case (Inl e)
    then show ?thesis using None rt py_iter_error[OF Inl] by simp
  next
    case (Inr es)
    then have "\<not> list_all element_ok es" using assms None rt by (simp add: block_ok_def)
    then show ?thesis using None rt Inr by (simp add: rich_text_loop_bad)
  qed
qed

lemma blocks_loop_ok:
  "list_all block_ok bs \<Longrightarrow> \<exists>t. blocks_loop acc bs = Inr t"
proof (induction bs arbitrary: acc)
  case Nil
  then show ?case by simp
next
  case (Cons b bs)
  then obtain t where "blocks_loop acc (b # bs) = blocks_loop t bs"
    using block_ok_step[of b acc bs] by auto
  then show ?case using Cons.IH[of t] Cons.prems by simp
qed

lemma blocks_loop_bad:
  "\<not> list_all block_ok bs \<Longrightarrow> blocks_loop acc bs = Inl TypeError"
proof (induction bs arbitrary: acc)
  case Nil
  then show ?case by simp
next
  case (Cons b bs)
  show ?case
  proof (cases "block_ok b")
    case True
    then obtain t where "blocks_loop acc (b # bs) = blocks_loop t bs"
      using block_ok_step[of b acc bs] by auto
    then show ?thesis using Cons.IH[of t] Cons.prems True by simp
  next
    case False
    then show ?thesis by (rule block_bad_step)
  qed
qed

lemma canvas_document_ok: "canvas_ok cv \<Longrightarrow> \<exists>d. canvas_document E um cv = Inr d"
  using blocks_loop_ok[of "cv_content cv" "''Canvas: '' @ cv_title cv @ [NL, NL]"]
  by (auto simp: canvas_ok_def canvas_document_def)

lemma canvas_document_bad: "\<not> canvas_ok cv \<Longrightarrow> canvas_document E um cv = Inl TypeError"
  using blocks_loop_bad[of "cv_content cv" "''Canvas: '' @ cv_title cv @ [NL, NL]"]
  by (simp add: canvas_ok_def canvas_document_def)

lemma canvas_documents_ok:
  "list_all canvas_ok cvs \<Longrightarrow> \<exists>ds. canvas_documents E um cvs = Inr ds"
proof (induction cvs)
  case Nil
  then show ?case by simp
next
  case (Cons cv cvs)
  then obtain d ds where "canvas_document E um cv = Inr d" "canvas_documents E um cvs = Inr ds"
    using canvas_document_ok[of cv E um] by auto
  then show ?case by simp
qed

lemma canvas_documents_bad:
  "\<not> list_all canvas_ok cvs \<Longrightarrow> canvas_documents E um cvs = Inl TypeError"
proof (induction cvs)
  case Nil
  then show ?case by simp
next
  case (Cons cv cvs)
  show ?case
  proof (cases "canvas_ok cv")
    case True
    then obtain d where "canvas_document E um cv = Inr d"
      using canvas_document_ok[of cv E um] by auto
    then show ?thesis using Cons True by simp
  next
    case False
    then show ?thesis by (simp add: canvas_document_bad)
  qed
qed

lemma build_documents_ok:
  "list_all canvas_ok (w_canvases w) \<Longrightarrow> \<exists>docs. build_documents E w = Inr docs"
  using canvas_documents_ok[of "w_canvases w" E "user_map (w_users w)"]
  by (auto simp: build_documents_def Let_def)

lemma build_documents_bad:
  "\<not> list_all canvas_ok (w_canvases w) \<Longrightarrow> build_documents E w = Inl TypeError"
  using canvas_documents_bad[of "w_canvases w" E "user_map (w_users w)"]
  by (simp add: build_documents_def Let_def)

lemma rich_text_loop_prefix:
  "rich_text_loop acc es = Inr t \<Longrightarrow> \<exists>s. t = acc @ s"
proof (induction es arbitrary: acc)
  case Nil
  then show ?case by simp
next
  case (Cons e es)
  then show ?case
    by (fastforce split: sum.splits bool.splits)
qed

lemma blocks_loop_prefix:
  "blocks_loop acc bs = Inr t \<Longrightarrow> \<exists>s. t = acc @ s"
proof (induction bs arbitrary: acc)
  case Nil
  then show ?case by simp
next
  case (Cons b bs)
  show ?case
  proof (cases "map_of b ''text''")
    case (Some v)
    with Cons.prems obtain line where "blocks_loop (acc @ line) bs = Inr t"
      by (auto split: sum.splits)
    from Cons.IH[OF this] show ?thesis by auto
  next
    case None
    show ?thesis
    proof (cases "map_of b ''rich_text''")
      case None
      with \<open>map_of b ''text'' = None\<close> Cons.prems have "blocks_loop acc bs = Inr t" by simp
      from Cons.IH[OF this] show ?thesis .
    next
      case (Some rt)
      with \<open>map_of b ''text'' = None\<close> Cons.prems obtain es t1 where
        "rich_text_loop acc es = Inr t1" "blocks_loop t1 bs = Inr t"
        by (auto split: sum.splits)
      with rich_text_loop_prefix[of acc es t1] Cons.IH[of t1] show ?thesis by auto
    qed
  qed
qed

lemma canvas_document_text:
  assumes "canvas_document E um cv = Inr d"
  shows "\<exists>s. page_content d = ''Canvas: '' @ cv_title cv @ [NL, NL] @ s"
proof -
  from assms obtain t where t: "blocks_loop (''Canvas: '' @ cv_title cv @ [NL, NL]) (cv_content cv) = Inr t"
    and d: "page_content d = t"
    by (auto simp: canvas_document_def split: sum.splits)
  from blocks_loop_prefix[OF t] d show ?thesis by auto
qed

lemma canvas_documents_each:
  "canvas_documents E um cvs = Inr ds \<Longrightarrow>
   list_all2 (\<lambda>cv d. canvas_document E um cv = Inr d) cvs ds"
  by (induction cvs arbitrary: ds) (auto split: sum.splits)

lemma message_documents_message_filter:
  "filter (\<lambda>d. source_type d = Some (PStr ''message'')) (message_documents E um c m) =
     (if strip (m_text m) = [] then [] else [message_document E um c m])"
  by (simp add: message_documents_def message_document_def filter_empty_conv)

lemma concat_if_filter:
  "concat (map (\<lambda>m. if P m then [] else [f m]) ms) = map f (filter (\<lambda>m. \<not> P m) ms)"
  by (induction ms) simp_all

lemma channel_documents_message_filter:
  "filter (\<lambda>d. source_type d = Some (PStr ''message'')) (channel_documents E um c) =
     map (message_document E um c) (filter (\<lambda>m. strip (m_text m) \<noteq> []) (c_messages c))"
  by (simp add: channel_documents_def filter_concat comp_def message_documents_message_filter
      concat_if_filter)

lemma strip_nonempty: "strip s \<noteq> [] \<Longrightarrow> s \<noteq> []"
  by (auto simp: strip_def)

lemma documents_returned:
  assumes "build_documents E w = Inr docs"
  shows
    "filter (\<lambda>d. source_type d = Some (PStr ''message'')) docs =
       concat (map (\<lambda>c. map (message_document E (user_map (w_users w)) c)
                           (filter (\<lambda>m. strip (m_text m) \<noteq> []) (c_messages c)))
                   (w_channels w)) \<and>
     list_all2 (\<lambda>cv d. canvas_document E (user_map (w_users w)) cv = Inr d \<and>
                  (\<exists>s. page_content d = ''Canvas: '' @ cv_title cv @ [NL, NL] @ s))
       (w_canvases w) (filter (\<lambda>d. source_type d = Some (PStr ''canvas'')) docs) \<and>
     (\<forall>d. d \<in> set docs \<longrightarrow> source_type d \<noteq> Some (PStr ''reply'') \<longrightarrow> page_content d \<noteq> [])"
proof -
  let ?um = "user_map (w_users w)"
  let ?chan = "concat (map (channel_documents E ?um) (w_channels w))"
  from build_documents_split[OF assms] obtain cds where
    cds: "canvas_documents E ?um (w_canvases w) = Inr cds" and docs: "docs = ?chan @ cds"
    by blast
  have canvas_src: "\<And>d. d \<in> set cds \<Longrightarrow> source_type d = Some (PStr ''canvas'')"
    using canvas_documents_source[OF cds] .
  have chan_src: "source_type d = Some (PStr ''message'') \<or> source_type d = Some (PStr ''reply'')"
    if "d \<in> set ?chan" for d
    using that by (auto simp: channel_documents_def message_documents_def split: if_splits)
  have fc: "filter (\<lambda>d. source_type d = Some (PStr ''message'')) cds = []"
    using canvas_src by (auto simp: filter_empty_conv)
  have c: "filter (\<lambda>d. source_type d = Some (PStr ''message'')) docs =
       concat (map (\<lambda>c. map (message_document E ?um c)
                           (filter (\<lambda>m. strip (m_text m) \<noteq> []) (c_messages c)))
                   (w_channels w))"
    unfolding docs
    by (simp add: fc filter_concat comp_def channel_documents_message_filter)
  have f1: "filter (\<lambda>d. source_type d = Some (PStr ''canvas'')) ?chan = []"
    using chan_src by (fastforce simp: filter_empty_conv)
  have f2: "filter (\<lambda>d. source_type d = Some (PStr ''canvas'')) cds = cds"
    using canvas_src by (simp add: filter_id_conv)
  have d0: "list_all2 (\<lambda>cv d. canvas_document E ?um cv = Inr d \<and>
                  (\<exists>s. page_content d = ''Canvas: '' @ cv_title cv @ [NL, NL] @ s))
       (w_canvases w) cds"
    using canvas_documents_each[OF cds]
  proof (rule list_all2_mono)
    fix cv x assume "canvas_document E ?um cv = Inr x"
    then show "canvas_document E ?um cv = Inr x \<and>
                  (\<exists>s. page_content x = ''Canvas: '' @ cv_title cv @ [NL, NL] @ s)"
      using canvas_document_text by blast
  qed
  have "filter (\<lambda>d. source_type d = Some (PStr ''canvas'')) docs = cds"
    unfolding docs by (simp only: filter_append f1 f2 append_Nil)
  with d0 have d: "list_all2 (\<lambda>cv d. canvas_document E ?um cv = Inr d \<and>
                  (\<exists>s. page_content d = ''Canvas: '' @ cv_title cv @ [NL, NL] @ s))
       (w_canvases w) (filter (\<lambda>d. source_type d = Some (PStr ''canvas'')) docs)"
    by simp
  have e: "page_content x \<noteq> []" if "x \<in> set docs" "source_type x \<noteq> Some (PStr ''reply'')" for x
  proof (cases "x \<in> set cds")
    case True
    then obtain cv where "canvas_document E ?um cv = Inr x"
      using canvas_documents_each[OF cds] by (auto simp: list_all2_conv_all_nth in_set_conv_nth)
    from canvas_document_text[OF this] show ?thesis by auto
  next
    case False
    then have "x \<in> set ?chan" using that(1) docs by simp
    then obtain c m where "x \<in> set (message_documents E ?um c m)"
      by (auto simp: channel_documents_def)
    then show ?thesis using that(2)
      by (auto simp: message_documents_def strip_nonempty split: if_splits)
  qed
  show ?thesis using c d e by blast
qed

text \<open>
  Claim C8, as the code has it. Before the splitter is called, a top-level message whose
  text is empty or whitespace-only yields no Document at all (its replies are skipped with
  it), any other message yields exactly one Document of source type message, holding its
  text. The builder returns when the block loop raises on no block of any canvas, and
  raises TypeError otherwise (on a block whose \<open>text\<close> is not a string, for one). When it
  returns, the message Documents of the corpus are those of the messages with text, in
  order; every canvas has yielded exactly one Document, whose text starts with the line
  "Canvas: <title>" and an empty line, also when none of its blocks holds text; and every
  Document of a message or a canvas has non-empty text.
\<close>

theorem documents_of_messages_and_canvases:
  "(\<forall>um c m. strip (m_text m) = [] \<longrightarrow> message_documents E um c m = []) \<and>
   (\<forall>um c m. strip (m_text m) \<noteq> [] \<longrightarrow>
      filter (\<lambda>d. source_type d = Some (PStr ''message'')) (message_documents E um c m) =
        [message_document E um c m] \<and>
      page_content (message_document E um c m) = m_text m \<and> m_text m \<noteq> []) \<and>
   (list_all canvas_ok (w_canvases w) \<longrightarrow> (\<exists>docs. build_documents E w = Inr docs)) \<and>
   (\<not> list_all canvas_ok (w_canvases w) \<longrightarrow> build_documents E w = Inl TypeError) \<and>
   (\<forall>docs. build_documents E w = Inr docs \<longrightarrow>
      filter (\<lambda>d. source_type d = Some (PStr ''message'')) docs =
        concat (map (\<lambda>c. map (message_document E (user_map (w_users w)) c)
                            (filter (\<lambda>m. strip (m_text m) \<noteq> []) (c_messages c)))
                    (w_channels w)) \<and>
      list_all2 (\<lambda>cv d. canvas_document E (user_map (w_users w)) cv = Inr d \<and>
                   (\<exists>s. page_content d = ''Canvas: '' @ cv_title cv @ [NL, NL] @ s))
        (w_canvases w) (filter (\<lambda>d. source_type d = Some (PStr ''canvas'')) docs) \<and>
      (\<forall>d. d \<in> set docs \<longrightarrow> source_type d \<noteq> Some (PStr ''reply'') \<longrightarrow> page_content d \<noteq> []))"
proof -
  have a: "\<forall>um c m. strip (m_text m) = [] \<longrightarrow> message_documents E um c m = []"
    by (simp add: message_documents_def)
  have b: "\<forall>um c m. strip (m_text m) \<noteq> [] \<longrightarrow>
        filter (\<lambda>d. source_type d = Some (PStr ''message'')) (message_documents E um c m) =
          [message_document E um c m] \<and>
        page_content (message_document E um c m) = m_text m \<and> m_text m \<noteq> []"
    by (simp add: message_documents_message_filter message_document_def strip_nonempty)
  show ?thesis
    using a b build_documents_ok[of w E] build_documents_bad[of w E] documents_returned[of E w]
    by blast
qed

lemma plan_canvas_document:
  "canvas_document example_env um plan_canvas =
     Inr \<lparr>page_content = ''Canvas: Plan'' @ [NL, NL],
          metadata = [(''canvas_id'', PStr ''F1''), (''canvas_title'', PStr ''Plan''),
                      (''channel_id'', PNone), (''user_id'', PStr ''U1''),
                      (''user_name'', PStr (get_user_name um ''U1'')),
                      (''timestamp'', PStr ''T''), (''source_type'', PStr ''canvas'')]\<rparr>"
  by (simp add: canvas_document_def plan_canvas_def example_env_def)

lemma markdown_canvas_bad: "\<not> list_all canvas_ok (w_canvases (launch_workspace [markdown_canvas]))"
  by (simp add: launch_workspace_def markdown_canvas_def canvas_ok_def block_ok_def)

lemma plan_canvas_ok: "list_all canvas_ok (w_canvases mixed_workspace)"
  by (simp add: mixed_workspace_def plan_canvas_def canvas_ok_def)

theorem documents_of_messages_and_canvases_witness:
  "list_all canvas_ok (w_canvases mixed_workspace) \<and>
   build_documents example_env mixed_workspace =
     Inr [message_document example_env (user_map [example_user])
            (thread_channel [text_message ''1'' ''  '' 63899000000000001 [],
                             text_message ''2'' ''hi'' 63899000000000002 []])
            (text_message ''2'' ''hi'' 63899000000000002 []),
          \<lparr>page_content = ''Canvas: Plan'' @ [NL, NL],
           metadata = [(''canvas_id'', PStr ''F1''), (''canvas_title'', PStr ''Plan''),
                       (''channel_id'', PNone), (''user_id'', PStr ''U1''),
                       (''user_name'', PStr ''Alice A''),
                       (''timestamp'', PStr ''T''), (''source_type'', PStr ''canvas'')]\<rparr>] \<and>
   strip ''  '' = [] \<and> strip ''hi'' \<noteq> [] \<and>
   message_documents example_env (user_map [example_user]) (thread_channel [])
     (text_message ''1'' ''  '' 63899000000000001 []) = [] \<and>
   filter (\<lambda>d. source_type d = Some (PStr ''message''))
     (message_documents example_env (user_map [example_user]) (thread_channel [])
        (text_message ''2'' ''hi'' 63899000000000002 [])) =
     [message_document example_env (user_map [example_user]) (thread_channel [])
        (text_message ''2'' ''hi'' 63899000000000002 [])] \<and>
   \<not> list_all canvas_ok (w_canvases (launch_workspace [markdown_canvas])) \<and>
   build_documents example_env (launch_workspace [markdown_canvas]) = Inl TypeError"
proof -
  have s: "strip ''  '' = []" "strip ''hi'' \<noteq> []"
    by (simp_all add: strip_def isspace_def)
  have u: "get_user_name (user_map [example_user]) ''U1'' = ''Alice A''"
    by (simp add: get_user_name_def user_map_def example_user_def display_name_def)
  have b: "build_documents example_env mixed_workspace =
     Inr [message_document example_env (user_map [example_user])
            (thread_channel [text_message ''1'' ''  '' 63899000000000001 [],
                             text_message ''2'' ''hi'' 63899000000000002 []])
            (text_message ''2'' ''hi'' 63899000000000002 []),
          \<lparr>page_content = ''Canvas: Plan'' @ [NL, NL],
           metadata = [(''canvas_id'', PStr ''F1''), (''canvas_title'', PStr ''Plan''),
                       (''channel_id'', PNone), (''user_id'', PStr ''U1''),
                       (''user_name'', PStr ''Alice A''),
                       (''timestamp'', PStr ''T''), (''source_type'', PStr ''canvas'')]\<rparr>]"
    by (simp add: build_documents_def mixed_workspace_def Let_def plan_canvas_document u
        channel_documents_def message_documents_def message_document_def thread_channel_def
        text_message_simps s)
  have m: "message_documents example_env (user_map [example_user]) (thread_channel [])
     (text_message ''1'' ''  '' 63899000000000001 []) = [] \<and>
   filter (\<lambda>d. source_type d = Some (PStr ''message''))
     (message_documents example_env (user_map [example_user]) (thread_channel [])
        (text_message ''2'' ''hi'' 63899000000000002 [])) =
     [message_document example_env (user_map [example_user]) (thread_channel [])
        (text_message ''2'' ''hi'' 63899000000000002 [])]"
    using documents_of_messages_and_canvases[of example_env mixed_workspace] s
    by (simp add: text_message_simps)
  have t: "build_documents example_env (launch_workspace [markdown_canvas]) = Inl TypeError"
    using documents_of_messages_and_canvases[of example_env "launch_workspace [markdown_canvas]"]
      markdown_canvas_bad by blast
  show ?thesis using plan_canvas_ok b s m markdown_canvas_bad t by (intro conjI) simp_all
qed

theorem documents_counterexample:
  "blocks_loop [] (cv_content plan_canvas) = Inr [] \<and>
   map_sum id (map page_content) (build_documents example_env canvas_workspace) =
     Inr [''Canvas: Plan'' @ [NL, NL]] \<and>
   m_text (text_message ''r3'' [] 63899000000000006 []) = [] \<and>
   m_replies empty_reply_message = [text_message ''r3'' [] 63899000000000006 []] \<and>
   map_sum id (map page_content)
     (build_documents example_env (thread_workspace [empty_reply_message])) =
     Inr [''parent'', []]"
  by (simp add: plan_canvas_def canvas_workspace_def build_documents_def canvas_document_def
      thread_workspace_def thread_channel_def empty_reply_message_def text_message_def
      channel_documents_def message_documents_def reply_document_def strip_def isspace_def
      Let_def)

section \<open>Insight parsing\<close>








section \<open>Canvases and the include_canvases flag\<close>

lemma launch_env_simps:
  "fetch_all_workspace_data (launch_env cvs) wid = Inr (launch_workspace cvs)"
  "now_cutoff (launch_env cvs) = 63900000000000000"
  "now_processing_time (launch_env cvs) = 63900000000000001"
  "now_completed_at (launch_env cvs) = 63900000000000002"
  "split_documents (launch_env cvs) = Inr"
  "from_documents (launch_env cvs) ds = Inr (length ds)"
  "chain_run (launch_env cvs) p vars = Inr ''ok''"
  "json_loads (launch_env cvs) s = Inl (ExternalError ''Expecting value'')"
  "isoformat (launch_env cvs) t = ''T''"
  "strftime (launch_env cvs) t = ''T''"
  "validate_result (launch_env cvs) = Inr"
  by (simp_all add: launch_env_def example_env_def)

lemma launch_workspace_simps:
  "w_channels (launch_workspace cvs) = [channel_B]"
  "w_canvases (launch_workspace cvs) = cvs"
  "w_users (launch_workspace cvs) = [example_user]"
  "w_name (launch_workspace cvs) = ''Acme''"
  by (simp_all add: launch_workspace_def)

lemma launch_documents:
  "map_sum id (map page_content)
     (prepare_documents (launch_env [launch_canvas]) (launch_workspace [launch_canvas])) =
     Inr [''Canvas: Launch'' @ [NL, NL] @ ''Launch on Friday'' @ [NL]]"
  by (simp add: prepare_documents_def build_documents_def launch_env_simps
      launch_workspace_simps channel_simps channel_documents_def canvas_document_def
      launch_canvas_def Let_def)

lemma launch_documents_nonempty:
  "\<exists>d. prepare_documents (launch_env [launch_canvas]) (launch_workspace [launch_canvas]) = Inr [d]"
  by (simp add: prepare_documents_def build_documents_def launch_env_simps
      launch_workspace_simps channel_simps channel_documents_def canvas_document_def
      launch_canvas_def Let_def)

lemma launch_filtered:
  "filter_workspace E None None w = Inr w"
  by (simp add: filter_workspace_def filter_channels_def filter_by_age_def)

text \<open>
  Claim C6 asks that canvases reach the corpus and the canvas summaries only when
  include_canvases is true. The canvas summaries obey the flag (line 175), the corpus
  does not: the canvas loop of the corpus builder runs over every canvas of the workspace.
  With include_canvases false, a workspace whose only content is one canvas gets a corpus
  holding the canvas text, and its run completes, with no canvas summary; without the
  canvas the same run ends with the empty-corpus error.
\<close>

theorem canvases_in_corpus_without_flag:
  "map_sum id (map page_content)
     (prepare_documents (launch_env [launch_canvas]) (launch_workspace [launch_canvas])) =
     Inr [''Canvas: Launch'' @ [NL, NL] @ ''Launch on Friday'' @ [NL]] \<and>
   run_pipeline (launch_env [launch_canvas]) ''W1'' None False None None = Inr launch_result \<and>
   r_canvas_summaries launch_result = [] \<and>
   run_pipeline (launch_env []) ''W1'' None False None None =
     Inl (ProcessingError ''No data to process after filtering'')"
proof -
  obtain d where d: "prepare_documents (launch_env [launch_canvas]) (launch_workspace [launch_canvas])
                       = Inr [d]"
    using launch_documents_nonempty by blast
  have a: "run_pipeline (launch_env [launch_canvas]) ''W1'' None False None None = Inr launch_result"
    by (simp add: run_pipeline_def launch_env_simps launch_filtered summarize_def d
        create_vector_store_def launch_workspace_simps channel_simps canvas_summaries_of_def
        generate_workspace_summary_def extract_key_insights_def parse_insights_def
        identify_topics_def parse_topics_def launch_result_def Let_def instruction_text_def
        strip_def isspace_def)
  have e: "prepare_documents (launch_env []) (launch_workspace []) = Inr []"
    by (simp add: prepare_documents_def build_documents_def launch_env_simps
        launch_workspace_simps channel_simps channel_documents_def Let_def)
  have b: "run_pipeline (launch_env []) ''W1'' None False None None =
     Inl (ProcessingError ''No data to process after filtering'')"
    by (simp add: run_pipeline_def launch_env_simps launch_filtered summarize_def e)
  show ?thesis using launch_documents a b by (simp add: launch_result_def)
qed

end
